theory Spec2Isabelle
  imports Main "HOL-Library.Multiset"
begin

section \<open>Cards\<close>

text \<open>
  \<^verbatim>\<open>type Suit string\<close> and \<^verbatim>\<open>type Rank string\<close> are Go strings with named constants.
  The engine only ever produces the named constants and the zero value \<^verbatim>\<open>""\<close>, which
  appears in \<^verbatim>\<open>Card{}\<close> (returned by \<^verbatim>\<open>DrawCard\<close> on an empty deck). The zero values are
  the constructors \<open>NoSuit\<close> and \<open>NoRank\<close>.
\<close>

datatype Suit = Hearts | Diamonds | Clubs | Spades | NoSuit

datatype Rank = Ace | Two | Three | Four | Five | Six | Seven | Eight | Nine | Ten
  | Jack | Queen | King | NoRank

record Card =
  Suit :: Suit
  Rank :: Rank
  Value :: int
  Face :: bool

text \<open>\<^verbatim>\<open>Card{}\<close>, the zero value of the struct.\<close>

definition zero_Card :: Card where
  "zero_Card = \<lparr>Suit = NoSuit, Rank = NoRank, Value = 0, Face = False\<rparr>"

text \<open>\<^verbatim>\<open>func (c Card) GetValue() int\<close>; the \<^verbatim>\<open>default\<close> branch is the last equation.\<close>

fun GetValue :: "Card \<Rightarrow> int" where
  "GetValue c =
     (case Rank c of
        Ace \<Rightarrow> 11
      | Ten \<Rightarrow> 10 | Jack \<Rightarrow> 10 | Queen \<Rightarrow> 10 | King \<Rightarrow> 10
      | Two \<Rightarrow> 2
      | Three \<Rightarrow> 3
      | Four \<Rightarrow> 4
      | Five \<Rightarrow> 5
      | Six \<Rightarrow> 6
      | Seven \<Rightarrow> 7
      | Eight \<Rightarrow> 8
      | Nine \<Rightarrow> 9
      | NoRank \<Rightarrow> 0)"

section \<open>Hand score\<close>

text \<open>
  \<^verbatim>\<open>CalculateHandScore\<close> runs two loops over the local variables \<^verbatim>\<open>score\<close> and
  \<^verbatim>\<open>aces\<close>. The first loop ranges over the hand; \<open>first_pass\<close> carries the pair
  \<open>(score, aces)\<close>. The second loop, \<^verbatim>\<open>for aces > 0 && score > 21\<close>, is \<open>second_pass\<close>.
  Go's \<^verbatim>\<open>int\<close> is modelled by the mathematical integers throughout: the results hold
  as long as no 64-bit overflow occurs.
\<close>

fun first_pass :: "Card list \<Rightarrow> int \<times> int \<Rightarrow> int \<times> int" where
  "first_pass [] (score, aces) = (score, aces)"
| "first_pass (c # hand) (score, aces) =
     first_pass hand (score + GetValue c, if Rank c = Ace then aces + 1 else aces)"

function second_pass :: "int \<Rightarrow> int \<Rightarrow> int" where
  "second_pass score aces =
     (if aces > 0 \<and> score > 21 then second_pass (score - 10) (aces - 1) else score)"
  by pat_completeness auto
termination
  by (relation "measure (\<lambda>(score, aces). nat aces)") auto

definition CalculateHandScore :: "Card list \<Rightarrow> int" where
  "CalculateHandScore hand = (case first_pass hand (0, 0) of (score, aces) \<Rightarrow> second_pass score aces)"





definition mk_card :: "Suit \<Rightarrow> Rank \<Rightarrow> Card" where
  "mk_card s r = \<lparr>Suit = s, Rank = r, Value = 0, Face = True\<rparr>"

section \<open>Deck\<close>

record Deck =
  Cards :: "Card list"

text \<open>\<^verbatim>\<open>NewDeck\<close>: the nested loops over suits and ranks append one card per pair.\<close>

definition suits :: "Suit list" where
  "suits = [Hearts, Diamonds, Clubs, Spades]"

definition ranks :: "Rank list" where
  "ranks = [Ace, Two, Three, Four, Five, Six, Seven, Eight, Nine, Ten, Jack, Queen, King]"

definition NewDeck :: Deck where
  "NewDeck = \<lparr>Cards = concat (map (\<lambda>suit. map (\<lambda>rank.
       \<lparr>Suit = suit, Rank = rank, Value = 0, Face = True\<rparr>) ranks) suits)\<rparr>"

text \<open>
  \<^verbatim>\<open>Shuffle\<close>: the loop \<^verbatim>\<open>for i := len(d.Cards) - 1; i > 0; i--\<close> swaps positions \<open>i\<close> and
  \<open>j = r.Intn(i + 1)\<close>. The random source is a parameter \<open>rnd\<close>: the draw made at loop
  index \<open>i\<close> is \<open>rnd i mod (i + 1)\<close>, which ranges over exactly the values \<open>0..i\<close> that
  \<^verbatim>\<open>Intn(i + 1)\<close> may return.
\<close>

primrec shuffle_loop :: "(nat \<Rightarrow> nat) \<Rightarrow> nat \<Rightarrow> Card list \<Rightarrow> Card list" where
  "shuffle_loop rnd 0 cs = cs"
| "shuffle_loop rnd (Suc k) cs =
     (let i = Suc k; j = rnd i mod (i + 1)
      in shuffle_loop rnd k (cs[i := cs ! j, j := cs ! i]))"

definition Shuffle :: "(nat \<Rightarrow> nat) \<Rightarrow> Deck \<Rightarrow> Deck" where
  "Shuffle rnd d = d\<lparr>Cards := shuffle_loop rnd (length (Cards d) - 1) (Cards d)\<rparr>"

text \<open>\<^verbatim>\<open>DrawCard\<close> returns the card, the success flag and the deck as it is afterwards.\<close>

definition DrawCard :: "Deck \<Rightarrow> Card \<times> bool \<times> Deck" where
  "DrawCard d =
     (case Cards d of
        [] \<Rightarrow> (zero_Card, False, d)
      | c # rest \<Rightarrow> (c, True, d\<lparr>Cards := rest\<rparr>))"

definition RemainingCards :: "Deck \<Rightarrow> nat" where
  "RemainingCards d = length (Cards d)"

section \<open>Game state\<close>

text \<open>
  \<^verbatim>\<open>type GameStatus string\<close> and \<^verbatim>\<open>type PlayerStatus string\<close> with their named constants;
  no other value is ever assigned to a status.
\<close>

datatype GameStatus = Waiting | Betting | InProgress | Completed

datatype PlayerStatus = PlayerActive | PlayerBusted | PlayerStood | PlayerBlackjack

record Player =
  ID :: string
  Name :: string
  Hand :: "Card list"
  Score :: int
  Status :: PlayerStatus
  Bet :: int
  Balance :: int
  IsActive :: bool

text \<open>The fields \<^verbatim>\<open>Dealer.Hand\<close> and \<^verbatim>\<open>Dealer.Score\<close> are \<open>DealerHand\<close> and \<open>DealerScore\<close>.\<close>

record Dealer =
  DealerHand :: "Card list"
  DealerScore :: int

text \<open>
  A \<^verbatim>\<open>time.Time\<close> is an integer timestamp. Every operation that calls \<^verbatim>\<open>time.Now()\<close>
  takes the clock reading \<open>now\<close> as its first argument. The fields \<^verbatim>\<open>BlackjackGame.ID\<close> and
  \<^verbatim>\<open>BlackjackGame.Status\<close> are \<open>GameID\<close> and \<open>GameStatus\<close>. The field \<^verbatim>\<open>Deck\<close> is a pointer
  that \<^verbatim>\<open>NewBlackjackGame\<close> and \<^verbatim>\<open>PrepareForNextRound\<close> set to a new deck and nothing else
  shares: the record holds the deck itself.
\<close>

type_synonym time = int

record BlackjackGame =
  GameID :: string
  Players :: "Player list"
  Dealer :: Dealer
  Deck :: Deck
  GameStatus :: GameStatus
  CreatedAt :: time
  UpdatedAt :: time
  MinBet :: int
  MaxBet :: int
  TableID :: string
  CurrentPlayerIndex :: int

text \<open>\<^verbatim>\<open>NewBlackjackGame\<close>; the fresh UUID is the parameter \<open>uuid\<close>.\<close>

definition NewBlackjackGame ::
    "string \<Rightarrow> time \<Rightarrow> (nat \<Rightarrow> nat) \<Rightarrow> string \<Rightarrow> int \<Rightarrow> int \<Rightarrow> BlackjackGame" where
  "NewBlackjackGame uuid now rnd tableID minBet maxBet =
     \<lparr>GameID = uuid, Players = [], Dealer = \<lparr>DealerHand = [], DealerScore = 0\<rparr>,
      Deck = Shuffle rnd NewDeck, GameStatus = Waiting, CreatedAt = now, UpdatedAt = now,
      MinBet = minBet, MaxBet = maxBet, TableID = tableID, CurrentPlayerIndex = 0\<rparr>"

text \<open>
  The loops \<^verbatim>\<open>for i, p := range g.Players\<close> of \<^verbatim>\<open>AddPlayer\<close>, \<^verbatim>\<open>RemovePlayer\<close>,
  \<^verbatim>\<open>PlaceBet\<close>, \<^verbatim>\<open>Hit\<close> and \<^verbatim>\<open>Stand\<close> return from inside the body at the first seat
  that passes their test: \<open>find_seat\<close> is the index of that seat.
\<close>

fun find_seat :: "(Player \<Rightarrow> bool) \<Rightarrow> Player list \<Rightarrow> nat option" where
  "find_seat P [] = None"
| "find_seat P (p # ps) = (if P p then Some 0 else map_option Suc (find_seat P ps))"

section \<open>Joining, leaving, betting\<close>

text \<open>
  \<^verbatim>\<open>AddPlayer\<close> returns a pointer to a seat or \<^verbatim>\<open>nil\<close>: the model returns the seat the
  pointer refers to when the call returns, or \<open>None\<close>.
\<close>

definition AddPlayer ::
    "time \<Rightarrow> BlackjackGame \<Rightarrow> string \<Rightarrow> string \<Rightarrow> int \<Rightarrow> Player option \<times> BlackjackGame" where
  "AddPlayer now g playerID playerName initialBalance =
     (case find_seat (\<lambda>p. ID p = playerID) (Players g) of
        Some i \<Rightarrow>
          if GameStatus g = Waiting
          then (let g' = g\<lparr>Players := (Players g)[i := (Players g ! i)\<lparr>IsActive := True\<rparr>]\<rparr>
                in (Some (Players g' ! i), g'))
          else (Some (Players g ! i), g)
      | None \<Rightarrow>
          if GameStatus g \<noteq> Waiting then (None, g)
          else (let player = \<lparr>ID = playerID, Name = playerName, Hand = [], Score = 0,
                                Status = PlayerActive, Bet = 0, Balance = initialBalance,
                                IsActive = False\<rparr>
                in (Some player, g\<lparr>Players := Players g @ [player], UpdatedAt := now\<rparr>)))"

definition RemovePlayer :: "time \<Rightarrow> BlackjackGame \<Rightarrow> string \<Rightarrow> bool \<times> BlackjackGame" where
  "RemovePlayer now g playerID =
     (case find_seat (\<lambda>p. ID p = playerID) (Players g) of
        Some i \<Rightarrow> (True, g\<lparr>Players := take i (Players g) @ drop (i + 1) (Players g),
                             UpdatedAt := now\<rparr>)
      | None \<Rightarrow> (False, g))"

definition PlaceBet :: "time \<Rightarrow> BlackjackGame \<Rightarrow> string \<Rightarrow> int \<Rightarrow> bool \<times> BlackjackGame" where
  "PlaceBet now g playerID amount =
     (if GameStatus g \<noteq> Betting then (False, g)
      else if amount < MinBet g \<or> amount > MaxBet g then (False, g)
      else (case find_seat (\<lambda>p. ID p = playerID) (Players g) of
              Some i \<Rightarrow>
                (let p = Players g ! i in
                 if Balance p < amount then (False, g)
                 else (True, g\<lparr>Players := (Players g)[i := p\<lparr>Bet := amount,
                                   Balance := Balance p - amount\<rparr>],
                                UpdatedAt := now\<rparr>))
            | None \<Rightarrow> (False, g)))"

section \<open>Settlement\<close>

text \<open>
  \<^verbatim>\<open>int(float64(player.Bet)*1.5)\<close>: the conversion to \<^verbatim>\<open>float64\<close> and the product with
  1.5 are exact for every bet of magnitude below \<open>2\<^sup>5\<^sup>1\<close> (the product is a multiple of one
  half below \<open>2\<^sup>5\<^sup>2\<close>), and the conversion back to \<^verbatim>\<open>int\<close> drops the fraction, rounding
  towards zero. \<open>times_1_5\<close> is that value.
\<close>

definition times_1_5 :: "int \<Rightarrow> int" where
  "times_1_5 bet = (if 0 \<le> bet then (3 * bet) div 2 else - ((3 * (- bet)) div 2))"

text \<open>
  The body of the loop of \<^verbatim>\<open>DetermineWinners\<close> for one seat; \<open>dealerLen\<close> is
  \<^verbatim>\<open>len(g.Dealer.Hand)\<close>. Iteration \<open>i\<close> reads and writes seat \<open>i\<close> only, so the loop is
  a map over the seats.
\<close>

definition settle :: "int \<Rightarrow> nat \<Rightarrow> Player \<Rightarrow> Player" where
  "settle dealerScore dealerLen player =
     (let dealerBusted = dealerScore > 21; playerScore = Score player in
      case Status player of
        PlayerBusted \<Rightarrow> player
      | PlayerBlackjack \<Rightarrow>
          if dealerLen = 2 \<and> dealerScore = 21
          then player\<lparr>Balance := Balance player + Bet player\<rparr>
          else player\<lparr>Balance := Balance player + (Bet player + times_1_5 (Bet player))\<rparr>
      | _ \<Rightarrow>
          if dealerBusted then player\<lparr>Balance := Balance player + Bet player * 2\<rparr>
          else if playerScore > dealerScore then player\<lparr>Balance := Balance player + Bet player * 2\<rparr>
          else if playerScore = dealerScore then player\<lparr>Balance := Balance player + Bet player\<rparr>
          else player)"

definition DetermineWinners :: "BlackjackGame \<Rightarrow> BlackjackGame" where
  "DetermineWinners g =
     g\<lparr>Players := map (settle (DealerScore (Dealer g)) (length (DealerHand (Dealer g))))
                      (Players g)\<rparr>"

section \<open>Dealing and the dealer phase\<close>

text \<open>
  \<^verbatim>\<open>DealInitialCards\<close> discards the success flag of every \<^verbatim>\<open>DrawCard\<close>: on an empty
  deck the card dealt is \<^verbatim>\<open>Card{}\<close> with its \<^verbatim>\<open>Face\<close> set. \<open>deal_players\<close> is the loop
  over the seats, threading the deck.
\<close>

fun deal_players :: "Player list \<Rightarrow> Deck \<Rightarrow> Player list \<times> Deck" where
  "deal_players [] d = ([], d)"
| "deal_players (p # ps) d =
     (case DrawCard d of (card1, _, d1) \<Rightarrow>
      case DrawCard d1 of (card2, _, d2) \<Rightarrow>
        (let hand = (Hand p @ [card1\<lparr>Face := True\<rparr>]) @ [card2\<lparr>Face := True\<rparr>];
             score = CalculateHandScore hand;
             p' = p\<lparr>Hand := hand, Score := score,
                    Status := (if score = 21 then PlayerBlackjack else Status p)\<rparr>
         in case deal_players ps d2 of (ps', d') \<Rightarrow> (p' # ps', d')))"

definition DealInitialCards :: "BlackjackGame \<Rightarrow> BlackjackGame" where
  "DealInitialCards g =
     (case deal_players (Players g) (Deck g) of (ps, d) \<Rightarrow>
      case DrawCard d of (dealerCard1, _, d1) \<Rightarrow>
      case DrawCard d1 of (dealerCard2, _, d2) \<Rightarrow>
        g\<lparr>Players := ps, Deck := d2,
          Dealer := \<lparr>DealerHand = (DealerHand (Dealer g) @ [dealerCard1\<lparr>Face := True\<rparr>])
                                    @ [dealerCard2\<lparr>Face := False\<rparr>],
                     DealerScore = GetValue (dealerCard1\<lparr>Face := True\<rparr>)\<rparr>\<rparr>)"

definition Start :: "time \<Rightarrow> BlackjackGame \<Rightarrow> bool \<times> BlackjackGame" where
  "Start now g =
     (if GameStatus g \<noteq> Betting \<or> length (Players g) = 0 then (False, g)
      else if list_ex (\<lambda>p. Bet p = 0) (Players g) then (False, g)
      else (let g1 = DealInitialCards g;
                g2 = g1\<lparr>GameStatus := InProgress, UpdatedAt := now, CurrentPlayerIndex := 0\<rparr>
            in (True, g2\<lparr>Players := (Players g2)[0 := (Players g2 ! 0)\<lparr>IsActive := True\<rparr>]\<rparr>)))"

text \<open>
  The loop \<^verbatim>\<open>for g.Dealer.Score < 17\<close> of \<^verbatim>\<open>DealerTurn\<close>, on the dealer and the deck;
  a failed draw is the \<^verbatim>\<open>break\<close>.
\<close>

function dealer_loop :: "Dealer \<Rightarrow> Deck \<Rightarrow> Dealer \<times> Deck" where
  "dealer_loop dl d =
     (if DealerScore dl < 17
      then (case DrawCard d of (c, success, d') \<Rightarrow>
              if \<not> success then (dl, d')
              else (let hand = DealerHand dl @ [c\<lparr>Face := True\<rparr>]
                    in dealer_loop \<lparr>DealerHand = hand, DealerScore = CalculateHandScore hand\<rparr> d'))
      else (dl, d))"
  by pat_completeness auto
termination
  by (relation "measure (\<lambda>(dl, d). length (Cards d))")
     (auto simp: DrawCard_def split: list.splits)

definition DealerTurn :: "time \<Rightarrow> BlackjackGame \<Rightarrow> BlackjackGame" where
  "DealerTurn now g =
     (let flipped = map (\<lambda>c. c\<lparr>Face := True\<rparr>) (DealerHand (Dealer g));
          dl = \<lparr>DealerHand = flipped, DealerScore = CalculateHandScore flipped\<rparr>
      in case dealer_loop dl (Deck g) of (dl', d') \<Rightarrow>
           (DetermineWinners (g\<lparr>Dealer := dl', Deck := d'\<rparr>))
             \<lparr>GameStatus := Completed, UpdatedAt := now\<rparr>)"

section \<open>Turns\<close>

text \<open>Go's \<^verbatim>\<open>%\<close> takes the sign of the dividend.\<close>

definition go_rem :: "int \<Rightarrow> int \<Rightarrow> int" where
  "go_rem a b = (if 0 \<le> a then a mod \<bar>b\<bar> else - ((- a) mod \<bar>b\<bar>))"

text \<open>
  The \<^verbatim>\<open>for { ... }\<close> loop of \<^verbatim>\<open>NextPlayer\<close>. It is entered with
  \<open>nextIndex = startIndex\<close>; an index outside the slice is Go's run-time panic.
\<close>

datatype scan = Found nat | NoneActive | OutOfRange

function scan_loop :: "Player list \<Rightarrow> nat \<Rightarrow> nat \<Rightarrow> scan" where
  "scan_loop ps startIndex nextIndex =
     (if length ps \<le> nextIndex \<or> length ps \<le> startIndex then OutOfRange
      else if Status (ps ! nextIndex) = PlayerActive then Found nextIndex
      else (let nextIndex' = (nextIndex + 1) mod length ps
            in if nextIndex' = startIndex then NoneActive
               else scan_loop ps startIndex nextIndex'))"
  by pat_completeness auto
termination
  by (relation "measure (\<lambda>(ps, startIndex, nextIndex).
        if nextIndex < startIndex then startIndex - nextIndex
        else startIndex + length ps - nextIndex)")
     (auto simp: mod_Suc)

text \<open>
  \<^verbatim>\<open>NextPlayer\<close>, \<^verbatim>\<open>Hit\<close> and \<^verbatim>\<open>Stand\<close> return \<open>None\<close> where the Go code panics
  (remainder by zero, index out of range).
\<close>

definition NextPlayer :: "time \<Rightarrow> BlackjackGame \<Rightarrow> BlackjackGame option" where
  "NextPlayer now g =
     (let n = int (length (Players g)) in
      if n = 0 then None
      else (let nextIndex = go_rem (CurrentPlayerIndex g + 1) n in
            if nextIndex < 0 then None
            else (case scan_loop (Players g) (nat nextIndex) (nat nextIndex) of
                    Found i \<Rightarrow>
                      Some (g\<lparr>CurrentPlayerIndex := int i,
                              Players := (Players g)[i := (Players g ! i)\<lparr>IsActive := True\<rparr>]\<rparr>)
                  | NoneActive \<Rightarrow> Some (DealerTurn now g)
                  | OutOfRange \<Rightarrow> None)))"

definition Hit :: "time \<Rightarrow> BlackjackGame \<Rightarrow> string \<Rightarrow> (Card \<times> bool \<times> BlackjackGame) option" where
  "Hit now g playerID =
     (if GameStatus g \<noteq> InProgress then Some (zero_Card, False, g)
      else (case find_seat (\<lambda>p. ID p = playerID \<and> IsActive p \<and> Status p = PlayerActive)
                   (Players g) of
              None \<Rightarrow> Some (zero_Card, False, g)
            | Some i \<Rightarrow>
               (case DrawCard (Deck g) of (drawn, success, d) \<Rightarrow>
                  if \<not> success then Some (zero_Card, False, g\<lparr>Deck := d\<rparr>)
                  else (let c = drawn\<lparr>Face := True\<rparr>;
                            hand = Hand (Players g ! i) @ [c];
                            score = CalculateHandScore hand;
                            p1 = (Players g ! i)\<lparr>Hand := hand, Score := score\<rparr>;
                            g1 = g\<lparr>Deck := d, Players := (Players g)[i := p1]\<rparr>
                        in if score > 21
                           then (case NextPlayer now
                                   (g1\<lparr>Players := (Players g1)[i := p1\<lparr>Status := PlayerBusted,
                                                                         IsActive := False\<rparr>]\<rparr>) of
                                   None \<Rightarrow> None
                                 | Some g2 \<Rightarrow> Some (c, True, g2\<lparr>UpdatedAt := now\<rparr>))
                           else Some (c, True, g1\<lparr>UpdatedAt := now\<rparr>)))))"

definition Stand :: "time \<Rightarrow> BlackjackGame \<Rightarrow> string \<Rightarrow> (bool \<times> BlackjackGame) option" where
  "Stand now g playerID =
     (if GameStatus g \<noteq> InProgress then Some (False, g)
      else (case find_seat (\<lambda>p. ID p = playerID \<and> IsActive p \<and> Status p = PlayerActive)
                   (Players g) of
              None \<Rightarrow> Some (False, g)
            | Some i \<Rightarrow>
               (case NextPlayer now
                       (g\<lparr>Players := (Players g)[i := (Players g ! i)\<lparr>Status := PlayerStood,
                                                                    IsActive := False\<rparr>]\<rparr>) of
                  None \<Rightarrow> None
                | Some g2 \<Rightarrow> Some (True, g2\<lparr>UpdatedAt := now\<rparr>))))"

section \<open>Next round\<close>

definition PrepareForNextRound :: "time \<Rightarrow> (nat \<Rightarrow> nat) \<Rightarrow> BlackjackGame \<Rightarrow> BlackjackGame" where
  "PrepareForNextRound now rnd g =
     g\<lparr>Deck := Shuffle rnd NewDeck,
       Dealer := \<lparr>DealerHand = [], DealerScore = 0\<rparr>,
       Players := map (\<lambda>p. p\<lparr>Hand := [], Score := 0, Status := PlayerActive, Bet := 0,
                              IsActive := False\<rparr>) (Players g),
       GameStatus := Betting, UpdatedAt := now\<rparr>"

section \<open>Reachable states\<close>

text \<open>
  The number of seats whose turn flag is set, and the states a game can reach from
  \<^verbatim>\<open>NewBlackjackGame\<close> by the operations of the engine, with any arguments, clock readings
  and random sources. The flag \<open>leave\<close> says whether \<^verbatim>\<open>RemovePlayer\<close> may also be called
  while a round is in progress. The rule \<open>idle\<close> is the assignment \<^verbatim>\<open>g.Status = game.Completed\<close>
  that the \<^verbatim>\<open>LeaveTable\<close> handler makes when \<^verbatim>\<open>RemovePlayer\<close> has emptied the table; no
  other code outside the engine writes to a game. \<open>play\<close> runs a sequence of \<^verbatim>\<open>Hit\<close> and
  \<^verbatim>\<open>Stand\<close> calls.
\<close>

definition active_seats :: "BlackjackGame \<Rightarrow> nat" where
  "active_seats g = length (filter IsActive (Players g))"

inductive reachable :: "bool \<Rightarrow> BlackjackGame \<Rightarrow> bool" for leave :: bool where
  new: "reachable leave (NewBlackjackGame uuid now rnd tableID minBet maxBet)"
| add: "reachable leave g \<Longrightarrow> reachable leave (snd (AddPlayer now g pid name balance))"
| remove: "reachable leave g \<Longrightarrow> leave \<or> GameStatus g \<noteq> InProgress \<Longrightarrow>
     reachable leave (snd (RemovePlayer now g pid))"
| bet: "reachable leave g \<Longrightarrow> reachable leave (snd (PlaceBet now g pid amount))"
| start: "reachable leave g \<Longrightarrow> reachable leave (snd (Start now g))"
| hit: "reachable leave g \<Longrightarrow> Hit now g pid = Some (c, ok, g') \<Longrightarrow> reachable leave g'"
| stand: "reachable leave g \<Longrightarrow> Stand now g pid = Some (ok, g') \<Longrightarrow> reachable leave g'"
| next_round: "reachable leave g \<Longrightarrow> reachable leave (PrepareForNextRound now rnd g)"
| idle: "reachable leave g \<Longrightarrow> Players g = [] \<Longrightarrow>
     reachable leave (g\<lparr>GameStatus := Completed\<rparr>)"

datatype action = DoHit string | DoStand string

fun act :: "time \<times> action \<Rightarrow> BlackjackGame \<Rightarrow> BlackjackGame option" where
  "act (now, DoHit pid) g = map_option (\<lambda>(c, ok, g'). g') (Hit now g pid)"
| "act (now, DoStand pid) g = map_option snd (Stand now g pid)"

fun play :: "(time \<times> action) list \<Rightarrow> BlackjackGame \<Rightarrow> BlackjackGame option" where
  "play [] g = Some g"
| "play (a # as) g = (case act a g of None \<Rightarrow> None | Some g' \<Rightarrow> play as g')"

section \<open>Cards in play\<close>

text \<open>
  The (suit, rank) pairs of the deck, of all player hands and of the dealer's hand, as a
  multiset, and the standard 52-card set. A table is \<open>fresh\<close> when its deck holds the
  52 cards and nobody holds a card.
\<close>

definition pair_of :: "Card \<Rightarrow> Suit \<times> Rank" where
  "pair_of c = (Suit c, Rank c)"

definition cards_in_play :: "BlackjackGame \<Rightarrow> (Suit \<times> Rank) multiset" where
  "cards_in_play g =
     mset (map pair_of (Cards (Deck g) @ concat (map Hand (Players g)) @ DealerHand (Dealer g)))"

definition standard_52 :: "(Suit \<times> Rank) multiset" where
  "standard_52 = mset (List.product suits ranks)"

definition fresh :: "BlackjackGame \<Rightarrow> bool" where
  "fresh g \<longleftrightarrow> mset (map pair_of (Cards (Deck g))) = standard_52
               \<and> concat (map Hand (Players g)) = [] \<and> DealerHand (Dealer g) = []"

section \<open>Example states\<close>

text \<open>Concrete seats and games, on which the operations are evaluated.\<close>

definition seat :: "string \<Rightarrow> Card list \<Rightarrow> int \<Rightarrow> PlayerStatus \<Rightarrow> int \<Rightarrow> int \<Rightarrow> bool \<Rightarrow> Player" where
  "seat pid hand score st bet balance active =
     \<lparr>ID = pid, Name = pid, Hand = hand, Score = score, Status = st, Bet = bet,
      Balance = balance, IsActive = active\<rparr>"

definition table :: "GameStatus \<Rightarrow> Player list \<Rightarrow> Card list \<Rightarrow> int \<Rightarrow> Card list \<Rightarrow> BlackjackGame" where
  "table st ps dealerHand dealerScore deck =
     \<lparr>GameID = ''g'', Players = ps,
      Dealer = \<lparr>DealerHand = dealerHand, DealerScore = dealerScore\<rparr>,
      Deck = \<lparr>Cards = deck\<rparr>, GameStatus = st, CreatedAt = 0, UpdatedAt = 0,
      MinBet = 10, MaxBet = 1000, TableID = ''t'', CurrentPlayerIndex = 0\<rparr>"






text \<open>A table taking bets: seat a holds 100, seat b holds 20; bets range from 10 to 1000.\<close>

definition table_bet :: BlackjackGame where
  "table_bet = table Betting
     [seat ''a'' [] 0 PlayerActive 0 100 False, seat ''b'' [] 0 PlayerActive 0 20 False] [] 0 []"

text \<open>A table still waiting for players, with seat a not flagged active.\<close>

definition table_wait :: BlackjackGame where
  "table_wait = table Waiting [seat ''a'' [] 0 PlayerActive 0 100 False] [] 0 []"




text \<open>
  A game played from \<^verbatim>\<open>NewBlackjackGame\<close>: Ann and Bob join, the round is prepared with
  the random source \<open>rnd\<close>, both bet 50, and the round starts. With \<open>no_shuffle\<close> every card
  is swapped with itself and the deck stays in the order of \<^verbatim>\<open>NewDeck\<close> (Ann is dealt Ace
  and Two of Hearts); with \<open>ten_second\<close> the Ten of Hearts is moved to second place (Ann is
  dealt Ace and Ten). In \<open>round_left\<close> Ann leaves the table while it is her turn.
\<close>

definition no_shuffle :: "nat \<Rightarrow> nat" where
  "no_shuffle i = i"

definition ten_second :: "nat \<Rightarrow> nat" where
  "ten_second i = (if i = 9 then 1 else i)"

definition lobby :: BlackjackGame where
  "lobby = snd (AddPlayer 2 (snd (AddPlayer 1
             (NewBlackjackGame ''g'' 0 no_shuffle ''t'' 10 1000) ''a'' ''Ann'' 1000))
             ''b'' ''Bob'' 1000)"

definition bets_placed :: "(nat \<Rightarrow> nat) \<Rightarrow> BlackjackGame" where
  "bets_placed rnd = snd (PlaceBet 5 (snd (PlaceBet 4 (PrepareForNextRound 3 rnd lobby)
                            ''a'' 50)) ''b'' 50)"

definition round_plain :: BlackjackGame where
  "round_plain = snd (Start 6 (bets_placed no_shuffle))"

definition round_left :: BlackjackGame where
  "round_left = snd (RemovePlayer 7 round_plain ''a'')"

text \<open>
  A table of 26 players, with ids a to z: all join, the round is prepared without
  shuffling, all bet 10 and the round starts.
\<close>

definition seats_26 :: "string list" where
  "seats_26 = map (\<lambda>c. [c]) ''abcdefghijklmnopqrstuvwxyz''"

definition lobby_26 :: BlackjackGame where
  "lobby_26 = fold (\<lambda>pid g. snd (AddPlayer 1 g pid pid 1000)) seats_26
                (NewBlackjackGame ''g'' 0 no_shuffle ''t'' 10 1000)"

definition bets_26 :: BlackjackGame where
  "bets_26 = fold (\<lambda>pid g. snd (PlaceBet 3 g pid 10)) seats_26
               (PrepareForNextRound 2 no_shuffle lobby_26)"

definition round_26 :: BlackjackGame where
  "round_26 = snd (Start 4 bets_26)"

section \<open>Properties of the hand score\<close>






section \<open>Properties of settlement\<close>

lemmas ex_defs = table_def seat_def mk_card_def










section \<open>Properties of betting\<close>

lemma find_seat_Some_iff:
  "find_seat P ps = Some i \<longleftrightarrow> i < length ps \<and> P (ps ! i) \<and> (\<forall>j<i. \<not> P (ps ! j))"
proof (induction ps arbitrary: i)
  case Nil
  show ?case by simp
next
  case (Cons p ps)
  show ?case
  proof (cases "P p")
    case True
    then show ?thesis by (cases i) auto
  next
    case False
    show ?thesis
    proof (cases i)
      case 0
      with False show ?thesis by simp
    next
      case (Suc k)
      have "(\<forall>j<Suc k. \<not> P ((p # ps) ! j)) \<longleftrightarrow> (\<forall>j<k. \<not> P (ps ! j))"
        using False by (auto simp: less_Suc_eq_0_disj)
      with False Suc Cons.IH [of k] show ?thesis by auto
    qed
  qed
qed

lemma find_seat_None_iff: "find_seat P ps = None \<longleftrightarrow> (\<forall>p\<in>set ps. \<not> P p)"
  by (induction ps) auto

text \<open>
  Claim C6. \<open>PlaceBet\<close> succeeds exactly when the status is Betting, the amount lies between
  \<open>MinBet\<close> and \<open>MaxBet\<close>, and the player is seated (at the first seat carrying the id) with
  a balance of at least the amount. On success that seat's bet becomes the amount and its
  balance is debited by the amount, every other seat is untouched and only \<open>UpdatedAt\<close>
  changes otherwise; on failure the game is unchanged.
\<close>

theorem C6_PlaceBet:
  fixes g :: BlackjackGame
  defines "first_seat \<equiv> \<lambda>pid i. i < length (Players g) \<and> ID (Players g ! i) = pid
                            \<and> (\<forall>j<i. ID (Players g ! j) \<noteq> pid)"
  shows "(fst (PlaceBet now g pid amount) \<longleftrightarrow>
            GameStatus g = Betting \<and> MinBet g \<le> amount \<and> amount \<le> MaxBet g
            \<and> (\<exists>i. first_seat pid i \<and> amount \<le> Balance (Players g ! i)))
       \<and> (fst (PlaceBet now g pid amount) \<longrightarrow>
            (\<exists>i. first_seat pid i
              \<and> snd (PlaceBet now g pid amount) =
                  g\<lparr>Players := (Players g)[i := (Players g ! i)\<lparr>Bet := amount,
                                  Balance := Balance (Players g ! i) - amount\<rparr>],
                    UpdatedAt := now\<rparr>))
       \<and> (\<not> fst (PlaceBet now g pid amount) \<longrightarrow> snd (PlaceBet now g pid amount) = g)"
proof -
  have fs: "first_seat pid i \<longleftrightarrow> find_seat (\<lambda>p. ID p = pid) (Players g) = Some i" for i
    unfolding first_seat_def find_seat_Some_iff by blast
  show ?thesis
  proof (cases "find_seat (\<lambda>p. ID p = pid) (Players g)")
    case None
    then show ?thesis by (simp add: fs PlaceBet_def)
  next
    case (Some i)
    then show ?thesis by (simp add: fs PlaceBet_def Let_def)
  qed
qed

text \<open>Seat a (balance 100) bets 25; seat b (balance 20) cannot.\<close>

theorem C6_PlaceBet_witness:
  "fst (PlaceBet 7 table_bet ''a'' 25)
   \<and> Bet (Players (snd (PlaceBet 7 table_bet ''a'' 25)) ! 0) = 25
   \<and> Balance (Players (snd (PlaceBet 7 table_bet ''a'' 25)) ! 0) = 75
   \<and> Players (snd (PlaceBet 7 table_bet ''a'' 25)) ! 1 = Players table_bet ! 1
   \<and> \<not> fst (PlaceBet 7 table_bet ''b'' 25)
   \<and> snd (PlaceBet 7 table_bet ''b'' 25) = table_bet"
  using C6_PlaceBet [where g = table_bet and now = 7 and pid = "''a''" and amount = 25]
    C6_PlaceBet [where g = table_bet and now = 7 and pid = "''b''" and amount = 25]
  by (simp add: PlaceBet_def table_bet_def ex_defs)

section \<open>Properties of joining\<close>

text \<open>
  Claim C8, as amended. \<open>AddPlayer\<close> with the id of a seated player returns that player's
  (first) seat. Once the status has left Waiting the seat and the whole game are unchanged;
  while the status is Waiting the call sets the seat's \<open>IsActive\<close> to true and leaves its
  other fields and the rest of the game unchanged. Once the status has left Waiting,
  \<open>AddPlayer\<close> with an id that is not seated returns no seat and leaves the game unchanged.
\<close>

theorem C8_AddPlayer:
  "(i < length (Players g) \<and> ID (Players g ! i) = pid \<and> (\<forall>j<i. ID (Players g ! j) \<noteq> pid) \<longrightarrow>
      (GameStatus g \<noteq> Waiting \<longrightarrow>
         AddPlayer now g pid name balance = (Some (Players g ! i), g))
    \<and> (GameStatus g = Waiting \<longrightarrow>
         AddPlayer now g pid name balance =
           (Some ((Players g ! i)\<lparr>IsActive := True\<rparr>),
            g\<lparr>Players := (Players g)[i := (Players g ! i)\<lparr>IsActive := True\<rparr>]\<rparr>)))
   \<and> ((\<forall>p\<in>set (Players g). ID p \<noteq> pid) \<and> GameStatus g \<noteq> Waiting \<longrightarrow>
         AddPlayer now g pid name balance = (None, g))"
proof -
  have a: "AddPlayer now g pid name balance = (Some (Players g ! i), g)"
    if "find_seat (\<lambda>p. ID p = pid) (Players g) = Some i" "GameStatus g \<noteq> Waiting"
    using that by (simp add: AddPlayer_def)
  have b: "AddPlayer now g pid name balance =
           (Some ((Players g ! i)\<lparr>IsActive := True\<rparr>),
            g\<lparr>Players := (Players g)[i := (Players g ! i)\<lparr>IsActive := True\<rparr>]\<rparr>)"
    if "find_seat (\<lambda>p. ID p = pid) (Players g) = Some i" "GameStatus g = Waiting"
  proof -
    from that(1) have "i < length (Players g)" by (simp add: find_seat_Some_iff)
    with that show ?thesis by (simp add: AddPlayer_def Let_def)
  qed
  have c: "AddPlayer now g pid name balance = (None, g)"
    if "find_seat (\<lambda>p. ID p = pid) (Players g) = None" "GameStatus g \<noteq> Waiting"
    using that by (simp add: AddPlayer_def)
  show ?thesis
    using a b c unfolding find_seat_Some_iff find_seat_None_iff by blast
qed

text \<open>
  A seated id at a Betting table and at a Waiting table, and a new id at a Betting table.
\<close>

theorem C8_AddPlayer_witness:
  "AddPlayer 7 table_bet ''a'' ''x'' 5 = (Some (Players table_bet ! 0), table_bet)
   \<and> fst (AddPlayer 7 table_wait ''a'' ''x'' 5) = Some ((Players table_wait ! 0)\<lparr>IsActive := True\<rparr>)
   \<and> AddPlayer 7 table_bet ''z'' ''x'' 5 = (None, table_bet)"
  using C8_AddPlayer [where g = table_bet and i = 0 and pid = "''a''" and now = 7
      and name = "''x''" and balance = 5]
    C8_AddPlayer [where g = table_wait and i = 0 and pid = "''a''" and now = 7
      and name = "''x''" and balance = 5]
    C8_AddPlayer [where g = table_bet and i = 0 and pid = "''z''" and now = 7
      and name = "''x''" and balance = 5]
  by (simp add: table_bet_def table_wait_def ex_defs)

text \<open>
  Claim C8 as stated fails while the status is Waiting: the seat of a was not flagged
  active, and after \<open>AddPlayer\<close> with the same id it is.
\<close>

theorem C8_counterexample:
  "ID (Players table_wait ! 0) = ''a''
   \<and> \<not> IsActive (Players table_wait ! 0)
   \<and> IsActive (Players (snd (AddPlayer 7 table_wait ''a'' ''a'' 100)) ! 0)
   \<and> snd (AddPlayer 7 table_wait ''a'' ''a'' 100) \<noteq> table_wait"
  by (simp add: AddPlayer_def table_wait_def ex_defs)

section \<open>Properties of the deck\<close>

lemma mset_shuffle_loop: "k < length cs \<Longrightarrow> mset (shuffle_loop rnd k cs) = mset cs"
proof (induction k arbitrary: cs)
  case 0
  show ?case by simp
next
  case (Suc k)
  have j: "rnd (Suc k) mod (Suc k + 1) < length cs"
  proof -
    have "rnd (Suc k) mod (Suc k + 1) < Suc k + 1" by (rule mod_less_divisor) simp
    with Suc.prems show ?thesis by linarith
  qed
  have "mset (cs[Suc k := cs ! (rnd (Suc k) mod (Suc k + 1)),
                 rnd (Suc k) mod (Suc k + 1) := cs ! Suc k]) = mset cs"
    using Suc.prems j by (simp add: mset_swap)
  moreover have "k < length (cs[Suc k := cs ! (rnd (Suc k) mod (Suc k + 1)),
                 rnd (Suc k) mod (Suc k + 1) := cs ! Suc k])"
    using Suc.prems by simp
  ultimately show ?case
    using Suc.IH by (simp add: Let_def)
qed

lemma mset_Shuffle: "mset (Cards (Shuffle rnd d)) = mset (Cards d)"
proof (cases "Cards d")
  case Nil
  then show ?thesis by (simp add: Shuffle_def)
next
  case (Cons c cs)
  then show ?thesis by (simp add: Shuffle_def mset_shuffle_loop)
qed


lemma distinct_NewDeck: "distinct (Cards NewDeck)"
  by code_simp

lemma Face_NewDeck: "list_all Face (Cards NewDeck)"
  by (simp add: NewDeck_def suits_def ranks_def)




section \<open>Properties of the dealer phase\<close>

declare dealer_loop.simps [simp del]

lemma DrawCard_Nil: "Cards d = [] \<Longrightarrow> DrawCard d = (zero_Card, False, d)"
  by (simp add: DrawCard_def)

lemma DrawCard_Cons: "Cards d = c # rest \<Longrightarrow> DrawCard d = (c, True, d\<lparr>Cards := rest\<rparr>)"
  by (simp add: DrawCard_def)

lemma dealer_loop_stand: "17 \<le> DealerScore dl \<Longrightarrow> dealer_loop dl d = (dl, d)"
  by (subst dealer_loop.simps) simp

lemma dealer_loop_Nil: "Cards d = [] \<Longrightarrow> dealer_loop dl d = (dl, d)"
  by (subst dealer_loop.simps) (simp add: DrawCard_Nil)

lemma dealer_loop_Cons:
  "DealerScore dl < 17 \<Longrightarrow> Cards d = c # rest \<Longrightarrow>
   dealer_loop dl d =
     dealer_loop \<lparr>DealerHand = DealerHand dl @ [c\<lparr>Face := True\<rparr>],
                  DealerScore = CalculateHandScore (DealerHand dl @ [c\<lparr>Face := True\<rparr>])\<rparr>
                 (d\<lparr>Cards := rest\<rparr>)"
  by (subst dealer_loop.simps) (simp add: DrawCard_Cons Let_def)

lemma dealer_loop_spec:
  assumes "DealerScore dl = CalculateHandScore (DealerHand dl)"
  shows "\<exists>k\<le>length (Cards d).
           dealer_loop dl d =
             (\<lparr>DealerHand = DealerHand dl @ map (\<lambda>c. c\<lparr>Face := True\<rparr>) (take k (Cards d)),
               DealerScore = CalculateHandScore
                 (DealerHand dl @ map (\<lambda>c. c\<lparr>Face := True\<rparr>) (take k (Cards d)))\<rparr>,
              d\<lparr>Cards := drop k (Cards d)\<rparr>)
         \<and> (\<forall>j<k. CalculateHandScore
                      (DealerHand dl @ map (\<lambda>c. c\<lparr>Face := True\<rparr>) (take j (Cards d))) < 17)
         \<and> (17 \<le> CalculateHandScore
                     (DealerHand dl @ map (\<lambda>c. c\<lparr>Face := True\<rparr>) (take k (Cards d)))
              \<or> k = length (Cards d))"
  using assms
proof (induction "Cards d" arbitrary: dl d)
  case Nil
  have e: "Cards d = []" using Nil(1) by simp
  then have "dealer_loop dl d = (dl, d)" by (rule dealer_loop_Nil)
  with e Nil.prems show ?case by (intro exI [of _ 0]) (cases dl, simp)
next
  case (Cons c rest)
  show ?case
  proof (cases "17 \<le> DealerScore dl")
    case True
    then have "dealer_loop dl d = (dl, d)" by (rule dealer_loop_stand)
    with True Cons.prems show ?thesis by (intro exI [of _ 0]) (cases dl, simp)
  next
    case False
    let ?up = "\<lambda>c::Card. c\<lparr>Face := True\<rparr>"
    let ?dl = "\<lparr>DealerHand = DealerHand dl @ [?up c],
                 DealerScore = CalculateHandScore (DealerHand dl @ [?up c])\<rparr>"
    let ?d = "d\<lparr>Cards := rest\<rparr>"
    have c: "Cards d = c # rest" using Cons.hyps(2) by simp
    have step: "dealer_loop dl d = dealer_loop ?dl ?d"
      using False c by (simp add: dealer_loop_Cons)
    have "rest = Cards ?d" by simp
    from Cons.hyps(1) [OF this, of ?dl]
    obtain k where k: "k \<le> length rest"
      and r: "dealer_loop ?dl ?d =
             (\<lparr>DealerHand = (DealerHand dl @ [?up c]) @ map ?up (take k rest),
               DealerScore = CalculateHandScore
                 ((DealerHand dl @ [?up c]) @ map ?up (take k rest))\<rparr>,
              ?d\<lparr>Cards := drop k rest\<rparr>)"
      and b: "\<forall>j<k. CalculateHandScore ((DealerHand dl @ [?up c]) @ map ?up (take j rest)) < 17"
      and s: "17 \<le> CalculateHandScore ((DealerHand dl @ [?up c]) @ map ?up (take k rest))
              \<or> k = length rest"
      by auto
    have below: "CalculateHandScore (DealerHand dl @ map ?up (take j (Cards d))) < 17"
      if "j < Suc k" for j
    proof (cases j)
      case 0
      with False Cons.prems show ?thesis by simp
    next
      case (Suc j')
      with that b have "CalculateHandScore ((DealerHand dl @ [?up c]) @ map ?up (take j' rest)) < 17"
        by simp
      with Suc c show ?thesis by simp
    qed
    show ?thesis
    proof (intro exI [of _ "Suc k"] conjI allI impI)
      show "Suc k \<le> length (Cards d)" using k c by simp
      show "dealer_loop dl d =
             (\<lparr>DealerHand = DealerHand dl @ map ?up (take (Suc k) (Cards d)),
               DealerScore = CalculateHandScore
                 (DealerHand dl @ map ?up (take (Suc k) (Cards d)))\<rparr>,
              d\<lparr>Cards := drop (Suc k) (Cards d)\<rparr>)"
        using step r c by simp
      show "17 \<le> CalculateHandScore (DealerHand dl @ map ?up (take (Suc k) (Cards d)))
              \<or> Suc k = length (Cards d)"
        using s c by simp
    next
      fix j assume "j < Suc k"
      then show "CalculateHandScore (DealerHand dl @ map ?up (take j (Cards d))) < 17"
        by (rule below)
    qed
  qed
qed


lemma Hit_empty_deck: "Cards (Deck g) = [] \<Longrightarrow> Hit now g pid = Some (zero_Card, False, g)"
  by (simp add: Hit_def DrawCard_Nil split: option.split)




section \<open>Properties of turns\<close>

declare scan_loop.simps [simp del]

lemma filter_update_count:
  "i < length ps \<Longrightarrow>
   length (filter P (ps[i := x])) + (if P (ps ! i) then 1 else 0)
     = length (filter P ps) + (if P x then 1 else 0)"
proof (induction ps arbitrary: i)
  case Nil
  then show ?case by simp
next
  case (Cons p ps)
  show ?case
  proof (cases i)
    case 0
    then show ?thesis by simp
  next
    case (Suc k)
    with Cons.prems have "k < length ps" by simp
    from Cons.IH [OF this] Suc show ?thesis by simp
  qed
qed

lemma filter_update_same:
  "i < length ps \<Longrightarrow> P x = P (ps ! i) \<Longrightarrow> length (filter P (ps[i := x])) = length (filter P ps)"
  using filter_update_count [of i ps P x] by (simp split: if_splits)

lemma deal_players_Cons:
  "deal_players (p # ps) d =
     (let hand = (Hand p @ [(fst (DrawCard d))\<lparr>Face := True\<rparr>])
                   @ [(fst (DrawCard (snd (snd (DrawCard d)))))\<lparr>Face := True\<rparr>];
          score = CalculateHandScore hand;
          d2 = snd (snd (DrawCard (snd (snd (DrawCard d)))))
      in (p\<lparr>Hand := hand, Score := score,
             Status := (if score = 21 then PlayerBlackjack else Status p)\<rparr>
            # fst (deal_players ps d2),
          snd (deal_players ps d2)))"
  by (simp add: Let_def split: prod.splits)

declare deal_players.simps(2) [simp del]

lemma deal_players_length: "length (fst (deal_players ps d)) = length ps"
  by (induction ps arbitrary: d) (simp_all add: deal_players_Cons Let_def)

lemma deal_players_IsActive: "map IsActive (fst (deal_players ps d)) = map IsActive ps"
  by (induction ps arbitrary: d) (simp_all add: deal_players_Cons Let_def)

lemma deal_players_Score:
  "p \<in> set (fst (deal_players ps d)) \<Longrightarrow>
   Score p = CalculateHandScore (Hand p) \<and> (Score p = 21 \<longrightarrow> Status p = PlayerBlackjack)"
proof (induction ps arbitrary: d)
  case Nil
  then show ?case by simp
next
  case (Cons q ps)
  from Cons.prems have
    "p = q\<lparr>Hand := (Hand q @ [(fst (DrawCard d))\<lparr>Face := True\<rparr>])
                   @ [(fst (DrawCard (snd (snd (DrawCard d)))))\<lparr>Face := True\<rparr>],
           Score := CalculateHandScore ((Hand q @ [(fst (DrawCard d))\<lparr>Face := True\<rparr>])
                   @ [(fst (DrawCard (snd (snd (DrawCard d)))))\<lparr>Face := True\<rparr>]),
           Status := (if CalculateHandScore ((Hand q @ [(fst (DrawCard d))\<lparr>Face := True\<rparr>])
                   @ [(fst (DrawCard (snd (snd (DrawCard d)))))\<lparr>Face := True\<rparr>]) = 21
                      then PlayerBlackjack else Status q)\<rparr>
     \<or> p \<in> set (fst (deal_players ps (snd (snd (DrawCard (snd (snd (DrawCard d))))))))"
    by (simp add: deal_players_Cons Let_def)
  then show ?case
  proof
    assume "p \<in> set (fst (deal_players ps (snd (snd (DrawCard (snd (snd (DrawCard d))))))))"
    then show ?thesis by (rule Cons.IH)
  next
    assume "p = q\<lparr>Hand := (Hand q @ [(fst (DrawCard d))\<lparr>Face := True\<rparr>])
                   @ [(fst (DrawCard (snd (snd (DrawCard d)))))\<lparr>Face := True\<rparr>],
           Score := CalculateHandScore ((Hand q @ [(fst (DrawCard d))\<lparr>Face := True\<rparr>])
                   @ [(fst (DrawCard (snd (snd (DrawCard d)))))\<lparr>Face := True\<rparr>]),
           Status := (if CalculateHandScore ((Hand q @ [(fst (DrawCard d))\<lparr>Face := True\<rparr>])
                   @ [(fst (DrawCard (snd (snd (DrawCard d)))))\<lparr>Face := True\<rparr>]) = 21
                      then PlayerBlackjack else Status q)\<rparr>"
    then show ?thesis by simp
  qed
qed

lemma scan_loop_Found: "scan_loop ps s n = Found j \<Longrightarrow> j < length ps"
proof (induction ps s n rule: scan_loop.induct)
  case (1 ps startIndex nextIndex)
  note unf = scan_loop.simps [of ps startIndex nextIndex]
  show ?case
  proof (cases "length ps \<le> nextIndex \<or> length ps \<le> startIndex")
    case True
    with "1.prems" unf show ?thesis by simp
  next
    case range: False
    show ?thesis
    proof (cases "Status (ps ! nextIndex) = PlayerActive")
      case True
      with range "1.prems" unf show ?thesis by simp
    next
      case False
      show ?thesis
      proof (cases "(nextIndex + 1) mod length ps = startIndex")
        case True
        with range False "1.prems" unf show ?thesis by (simp add: Let_def)
      next
        case next_index: False
        with range False "1.prems" unf
        have "scan_loop ps startIndex ((nextIndex + 1) mod length ps) = Found j"
          by (simp add: Let_def)
        with "1.IH" [OF range False refl next_index] show ?thesis by simp
      qed
    qed
  qed
qed


lemma active_count_map: "length (filter IsActive ps) = length (filter (\<lambda>b. b) (map IsActive ps))"
  by (simp add: filter_map comp_def)

lemma Players_DealInitialCards:
  "Players (DealInitialCards g) = fst (deal_players (Players g) (Deck g))"
  by (simp add: DealInitialCards_def split: prod.splits)

lemma Start_fails: "\<not> fst (Start now g) \<Longrightarrow> snd (Start now g) = g"
  by (cases "GameStatus g \<noteq> Betting \<or> length (Players g) = 0";
      cases "list_ex (\<lambda>p. Bet p = 0) (Players g)") (simp_all add: Start_def Let_def)

lemma Start_succeeds:
  assumes "fst (Start now g)"
  shows "GameStatus g = Betting" and "Players g \<noteq> []"
    and "GameStatus (snd (Start now g)) = InProgress"
    and "Players (snd (Start now g)) =
          (fst (deal_players (Players g) (Deck g)))
            [0 := (fst (deal_players (Players g) (Deck g)) ! 0)\<lparr>IsActive := True\<rparr>]"
  using assms by (simp_all add: Start_def Let_def Players_DealInitialCards split: if_splits)

lemma Start_active:
  assumes ok: "fst (Start now g)" and none: "active_seats g = 0"
  shows "active_seats (snd (Start now g)) = 1"
    and "IsActive (Players (snd (Start now g)) ! 0)"
    and "\<And>i. 0 < i \<Longrightarrow> i < length (Players g) \<Longrightarrow> \<not> IsActive (Players (snd (Start now g)) ! i)"
proof -
  let ?ps = "fst (deal_players (Players g) (Deck g))"
  have len: "length ?ps = length (Players g)" by (rule deal_players_length)
  have pos: "0 < length ?ps" using Start_succeeds(2) [OF ok] len by simp
  have flags: "map IsActive ?ps = map IsActive (Players g)" by (rule deal_players_IsActive)
  have zero: "length (filter IsActive ?ps) = 0"
    using none by (simp only: active_count_map [of ?ps] flags active_seats_def
        active_count_map [of "Players g", symmetric])
  then have off: "\<not> IsActive p" if "p \<in> set ?ps" for p
    using that by (simp add: filter_empty_conv)
  have P: "Players (snd (Start now g)) = ?ps[0 := (?ps ! 0)\<lparr>IsActive := True\<rparr>]"
    by (rule Start_succeeds(4) [OF ok])
  from filter_update_count [OF pos, of IsActive "(?ps ! 0)\<lparr>IsActive := True\<rparr>"] zero off pos
  show "active_seats (snd (Start now g)) = 1"
    by (simp add: active_seats_def P)
  show "IsActive (Players (snd (Start now g)) ! 0)"
    using pos by (simp add: P)
  show "\<not> IsActive (Players (snd (Start now g)) ! i)" if "0 < i" "i < length (Players g)" for i
    using that off [of "?ps ! i"] len by (simp add: P)
qed

lemma GameStatus_DealerTurn: "GameStatus (DealerTurn now g) = Completed"
  by (simp add: DealerTurn_def Let_def split: prod.splits)



lemma Hit_cases [consumes 1, case_names fail draw bust]:
  assumes hit: "Hit now g pid = Some (c, ok, g')"
  obtains "\<not> ok" and "g' = g" and "c = zero_Card"
  | i drawn rest where "GameStatus g = InProgress"
      and "find_seat (\<lambda>p. ID p = pid \<and> IsActive p \<and> Status p = PlayerActive) (Players g) = Some i"
      and "Cards (Deck g) = drawn # rest" and "ok" and "c = drawn\<lparr>Face := True\<rparr>"
      and "CalculateHandScore (Hand (Players g ! i) @ [c]) \<le> 21"
      and "g' = g\<lparr>Deck := (Deck g)\<lparr>Cards := rest\<rparr>,
                    Players := (Players g)[i := (Players g ! i)\<lparr>Hand := Hand (Players g ! i) @ [c],
                       Score := CalculateHandScore (Hand (Players g ! i) @ [c])\<rparr>],
                    UpdatedAt := now\<rparr>"
  | i drawn rest g2 where "GameStatus g = InProgress"
      and "find_seat (\<lambda>p. ID p = pid \<and> IsActive p \<and> Status p = PlayerActive) (Players g) = Some i"
      and "Cards (Deck g) = drawn # rest" and "ok" and "c = drawn\<lparr>Face := True\<rparr>"
      and "21 < CalculateHandScore (Hand (Players g ! i) @ [c])"
      and "NextPlayer now
             (g\<lparr>Deck := (Deck g)\<lparr>Cards := rest\<rparr>,
                Players := (Players g)[i := (Players g ! i)\<lparr>Hand := Hand (Players g ! i) @ [c],
                   Score := CalculateHandScore (Hand (Players g ! i) @ [c]),
                   Status := PlayerBusted, IsActive := False\<rparr>]\<rparr>) = Some g2"
      and "g' = g2\<lparr>UpdatedAt := now\<rparr>"
proof (cases "GameStatus g = InProgress")
  case False
  with hit that(1) show ?thesis by (simp add: Hit_def)
next
  case status: True
  show ?thesis
  proof (cases "find_seat (\<lambda>p. ID p = pid \<and> IsActive p \<and> Status p = PlayerActive) (Players g)")
    case None
    with hit status that(1) show ?thesis by (simp add: Hit_def)
  next
    case (Some i)
    show ?thesis
    proof (cases "Cards (Deck g)")
      case Nil
      with hit that(1) show ?thesis by (simp add: Hit_empty_deck)
    next
      case (Cons drawn rest)
      let ?c = "drawn\<lparr>Face := True\<rparr>"
      show ?thesis
      proof (cases "21 < CalculateHandScore (Hand (Players g ! i) @ [?c])")
        case False
        with hit status Some Cons have "ok" "c = ?c"
          "g' = g\<lparr>Deck := (Deck g)\<lparr>Cards := rest\<rparr>,
                    Players := (Players g)[i := (Players g ! i)\<lparr>Hand := Hand (Players g ! i) @ [?c],
                       Score := CalculateHandScore (Hand (Players g ! i) @ [?c])\<rparr>],
                    UpdatedAt := now\<rparr>"
          by (auto simp: Hit_def DrawCard_Cons Let_def)
        with that(2) [OF status Some Cons] False show ?thesis by simp
      next
        case True
        with hit status Some Cons obtain g2 where
          "NextPlayer now
             (g\<lparr>Deck := (Deck g)\<lparr>Cards := rest\<rparr>,
                Players := (Players g)[i := (Players g ! i)\<lparr>Hand := Hand (Players g ! i) @ [?c],
                   Score := CalculateHandScore (Hand (Players g ! i) @ [?c]),
                   Status := PlayerBusted, IsActive := False\<rparr>]\<rparr>) = Some g2"
          "ok" "c = ?c" "g' = g2\<lparr>UpdatedAt := now\<rparr>"
          by (auto simp: Hit_def DrawCard_Cons Let_def split: option.splits)
        with that(3) [OF status Some Cons] True show ?thesis by simp
      qed
    qed
  qed
qed

lemma Stand_cases [consumes 1, case_names fail stand]:
  assumes stand: "Stand now g pid = Some (ok, g')"
  obtains "\<not> ok" and "g' = g"
  | i g2 where "GameStatus g = InProgress"
      and "find_seat (\<lambda>p. ID p = pid \<and> IsActive p \<and> Status p = PlayerActive) (Players g) = Some i"
      and "ok"
      and "NextPlayer now
             (g\<lparr>Players := (Players g)[i := (Players g ! i)\<lparr>Status := PlayerStood,
                                                          IsActive := False\<rparr>]\<rparr>) = Some g2"
      and "g' = g2\<lparr>UpdatedAt := now\<rparr>"
proof (cases "GameStatus g = InProgress")
  case False
  with stand that(1) show ?thesis by (simp add: Stand_def)
next
  case status: True
  show ?thesis
  proof (cases "find_seat (\<lambda>p. ID p = pid \<and> IsActive p \<and> Status p = PlayerActive) (Players g)")
    case None
    with stand status that(1) show ?thesis by (simp add: Stand_def)
  next
    case (Some i)
    with stand status obtain g2 where
      "NextPlayer now
             (g\<lparr>Players := (Players g)[i := (Players g ! i)\<lparr>Status := PlayerStood,
                                                          IsActive := False\<rparr>]\<rparr>) = Some g2"
      "ok" "g' = g2\<lparr>UpdatedAt := now\<rparr>"
      by (auto simp: Stand_def split: option.splits)
    with that(2) [OF status Some] show ?thesis by simp
  qed
qed

lemma find_seat_bound: "find_seat P ps = Some i \<Longrightarrow> i < length ps \<and> P (ps ! i)"
  by (simp add: find_seat_Some_iff)

lemma Hit_not_InProgress:
  "GameStatus g \<noteq> InProgress \<Longrightarrow> Hit now g pid = Some (zero_Card, False, g)"
  by (simp add: Hit_def)

lemma Stand_not_InProgress: "GameStatus g \<noteq> InProgress \<Longrightarrow> Stand now g pid = Some (False, g)"
  by (simp add: Stand_def)

lemma NextPlayer_status:
  "NextPlayer now g = Some g' \<Longrightarrow> GameStatus g' = Completed \<or> GameStatus g' = GameStatus g"
  by (auto simp: NextPlayer_def Let_def GameStatus_DealerTurn split: if_splits scan.splits)



lemma GameStatus_AddPlayer: "GameStatus (snd (AddPlayer now g pid name balance)) = GameStatus g"
  by (simp add: AddPlayer_def Let_def split: option.splits)

lemma AddPlayer_not_Waiting:
  "GameStatus g \<noteq> Waiting \<Longrightarrow> snd (AddPlayer now g pid name balance) = g"
  by (simp add: AddPlayer_def split: option.splits)

lemma GameStatus_RemovePlayer: "GameStatus (snd (RemovePlayer now g pid)) = GameStatus g"
  by (simp add: RemovePlayer_def split: option.splits)

lemma active_RemovePlayer: "active_seats (snd (RemovePlayer now g pid)) \<le> active_seats g"
proof (cases "find_seat (\<lambda>p. ID p = pid) (Players g)")
  case None
  then show ?thesis by (simp add: RemovePlayer_def)
next
  case (Some i)
  then have i: "i < length (Players g)" by (simp add: find_seat_Some_iff)
  have "length (filter IsActive (take i (Players g) @ drop (Suc i) (Players g)))
        \<le> length (filter IsActive (take i (Players g) @ Players g ! i # drop (Suc i) (Players g)))"
    by simp
  then show ?thesis
    using Some by (simp add: RemovePlayer_def active_seats_def id_take_nth_drop [OF i, symmetric])
qed

lemma GameStatus_PlaceBet: "GameStatus (snd (PlaceBet now g pid amount)) = GameStatus g"
  by (simp add: PlaceBet_def Let_def split: option.splits)

lemma active_PlaceBet: "active_seats (snd (PlaceBet now g pid amount)) = active_seats g"
  by (simp add: PlaceBet_def Let_def active_seats_def filter_update_same find_seat_Some_iff
      split: option.splits)

lemma active_PrepareForNextRound: "active_seats (PrepareForNextRound now rnd g) = 0"
  by (simp add: PrepareForNextRound_def active_seats_def filter_empty_conv)

lemma reachable_Betting:
  "reachable leave g \<Longrightarrow> GameStatus g = Betting \<Longrightarrow> active_seats g = 0"
proof (induction rule: reachable.induct)
  case (new uuid now rnd tableID minBet maxBet)
  then show ?case by (simp add: NewBlackjackGame_def)
next
  case (add g now pid name balance)
  then show ?case by (simp add: GameStatus_AddPlayer AddPlayer_not_Waiting)
next
  case (remove g now pid)
  then show ?case using active_RemovePlayer [of now g pid] by (simp add: GameStatus_RemovePlayer)
next
  case (bet g now pid amount)
  then show ?case by (simp add: GameStatus_PlaceBet active_PlaceBet)
next
  case (start g now)
  then show ?case
    by (cases "fst (Start now g)") (simp_all add: Start_succeeds(3) Start_fails)
next
  case (hit g now pid c ok g')
  show ?case
  proof (cases "GameStatus g = InProgress")
    case True
    with hit.hyps(2) hit.prems show ?thesis
      by (cases rule: Hit_cases) (auto dest!: NextPlayer_status)
  next
    case False
    with hit show ?thesis by (simp add: Hit_not_InProgress)
  qed
next
  case (stand g now pid ok g')
  show ?case
  proof (cases "GameStatus g = InProgress")
    case True
    with stand.hyps(2) stand.prems show ?thesis
      by (cases rule: Stand_cases) (auto dest!: NextPlayer_status)
  next
    case False
    with stand show ?thesis by (simp add: Stand_not_InProgress)
  qed
next
  case (next_round g now rnd)
  show ?case by (rule active_PrepareForNextRound)
next
  case (idle g)
  then show ?case by simp
qed


lemma play_fixed:
  assumes "\<And>now pid. Hit now g pid = Some (zero_Card, False, g)"
    and "\<And>now pid. Stand now g pid = Some (False, g)"
  shows "play acts g = Some g"
proof (induction acts)
  case Nil
  show ?case by simp
next
  case (Cons a acts)
  obtain now b where a: "a = (now, b)" by (cases a)
  have "act a g = Some g" unfolding a using assms by (cases b) simp_all
  with Cons show ?case by simp
qed

lemmas reachable_ops = reachable.new reachable.add reachable.remove reachable.bet reachable.start
  reachable.next_round

lemma reachable_bets_placed: "reachable leave (bets_placed rnd)"
  unfolding bets_placed_def lobby_def by (intro reachable_ops)




lemma Hit_ok_seat:
  assumes "Hit now g pid = Some (c, True, g')"
  shows "GameStatus g = InProgress
       \<and> (\<exists>p\<in>set (Players g). ID p = pid \<and> IsActive p \<and> Status p = PlayerActive)"
  using assms
proof (cases rule: Hit_cases)
  case fail
  then show ?thesis by simp
next
  case (draw i drawn rest)
  from find_seat_bound [OF draw(2)] draw(1) show ?thesis by (auto intro: nth_mem)
next
  case (bust i drawn rest g2)
  from find_seat_bound [OF bust(2)] bust(1) show ?thesis by (auto intro: nth_mem)
qed

lemma Stand_ok_seat:
  assumes "Stand now g pid = Some (True, g')"
  shows "GameStatus g = InProgress
       \<and> (\<exists>p\<in>set (Players g). ID p = pid \<and> IsActive p \<and> Status p = PlayerActive)"
  using assms
proof (cases rule: Stand_cases)
  case fail
  then show ?thesis by simp
next
  case (stand i g2)
  from find_seat_bound [OF stand(2)] stand(1) show ?thesis by (auto intro: nth_mem)
qed

text \<open>
  Claim C10. In a reachable state, when \<open>Start\<close> succeeds and the first seat's cards total
  21, that seat has status Blackjack and is nevertheless the seat on turn; every \<open>Hit\<close> and
  every \<open>Stand\<close>, by any player at any time, fails and leaves the game as it is, so no
  sequence of \<open>Hit\<close> and \<open>Stand\<close> calls moves the game out of InProgress. In any game, a
  \<open>Hit\<close> or \<open>Stand\<close> succeeds only for a player with a seat that has \<open>IsActive\<close> set and
  status Active.
\<close>

theorem C10_first_seat_blackjack:
  fixes g :: BlackjackGame and now :: time
  defines "g1 \<equiv> snd (Start now g)"
  assumes reach: "reachable leave g"
    and ok: "fst (Start now g)"
    and bj: "CalculateHandScore (Hand (Players g1 ! 0)) = 21"
  shows "Status (Players g1 ! 0) = PlayerBlackjack \<and> IsActive (Players g1 ! 0)
       \<and> GameStatus g1 = InProgress
       \<and> (\<forall>t pid. Hit t g1 pid = Some (zero_Card, False, g1))
       \<and> (\<forall>t pid. Stand t g1 pid = Some (False, g1))
       \<and> (\<forall>acts. play acts g1 = Some g1)
       \<and> (\<forall>t h pid c h'. Hit t h pid = Some (c, True, h') \<longrightarrow>
            (\<exists>p\<in>set (Players h). ID p = pid \<and> IsActive p \<and> Status p = PlayerActive))
       \<and> (\<forall>t h pid h'. Stand t h pid = Some (True, h') \<longrightarrow>
            (\<exists>p\<in>set (Players h). ID p = pid \<and> IsActive p \<and> Status p = PlayerActive))"
proof -
  let ?ps = "fst (deal_players (Players g) (Deck g))"
  have none: "active_seats g = 0"
    using reach Start_succeeds(1) [OF ok] by (rule reachable_Betting)
  have len: "length ?ps = length (Players g)" by (rule deal_players_length)
  have pos: "0 < length ?ps" using Start_succeeds(2) [OF ok] len by simp
  have P: "Players g1 = ?ps[0 := (?ps ! 0)\<lparr>IsActive := True\<rparr>]"
    unfolding g1_def by (rule Start_succeeds(4) [OF ok])
  have first: "Players g1 ! 0 = (?ps ! 0)\<lparr>IsActive := True\<rparr>"
    using pos by (simp add: P)
  have "?ps ! 0 \<in> set ?ps" using pos by simp
  from deal_players_Score [OF this] bj have st: "Status (Players g1 ! 0) = PlayerBlackjack"
    by (simp add: first)
  have act: "IsActive (Players g1 ! 0)" by (simp add: first)
  have status: "GameStatus g1 = InProgress"
    unfolding g1_def by (rule Start_succeeds(3) [OF ok])
  have off: "\<not> IsActive (Players g1 ! i)" if "0 < i" "i < length (Players g)" for i
    unfolding g1_def using ok none that by (rule Start_active(3))
  have no_seat: "find_seat (\<lambda>p. ID p = pid \<and> IsActive p \<and> Status p = PlayerActive) (Players g1) = None"
    for pid
  proof -
    have "\<not> (IsActive p \<and> Status p = PlayerActive)" if "p \<in> set (Players g1)" for p
    proof -
      from that obtain i where i: "i < length (Players g1)" "p = Players g1 ! i"
        by (auto simp: in_set_conv_nth)
      show ?thesis
      proof (cases "i = 0")
        case True
        with i st show ?thesis by simp
      next
        case False
        with i off [of i] len show ?thesis by (simp add: P)
      qed
    qed
    then show ?thesis by (simp add: find_seat_None_iff)
  qed
  have hit: "Hit t g1 pid = Some (zero_Card, False, g1)" for t pid
    by (simp add: Hit_def no_seat)
  have stand: "Stand t g1 pid = Some (False, g1)" for t pid
    by (simp add: Stand_def no_seat)
  have fixed: "play acts g1 = Some g1" for acts
    using hit stand by (rule play_fixed)
  have need: "\<exists>p\<in>set (Players h). ID p = pid \<and> IsActive p \<and> Status p = PlayerActive"
    if "Hit t h pid = Some (c, True, h')" for t h pid c h'
    using Hit_ok_seat [OF that] by simp
  have need': "\<exists>p\<in>set (Players h). ID p = pid \<and> IsActive p \<and> Status p = PlayerActive"
    if "Stand t h pid = Some (True, h')" for t h pid h'
    using Stand_ok_seat [OF that] by simp
  from st act status hit stand fixed need need' show ?thesis by blast
qed

text \<open>Ann is dealt Ace and Ten of Hearts: nobody can hit or stand.\<close>

theorem C10_first_seat_blackjack_witness:
  "Status (Players (snd (Start 6 (bets_placed ten_second))) ! 0) = PlayerBlackjack
   \<and> IsActive (Players (snd (Start 6 (bets_placed ten_second))) ! 0)
   \<and> map Rank (Hand (Players (snd (Start 6 (bets_placed ten_second))) ! 0)) = [Ace, Ten]
   \<and> Hit 7 (snd (Start 6 (bets_placed ten_second))) ''a''
        = Some (zero_Card, False, snd (Start 6 (bets_placed ten_second)))
   \<and> Stand 7 (snd (Start 6 (bets_placed ten_second))) ''b''
        = Some (False, snd (Start 6 (bets_placed ten_second)))
   \<and> play [(7, DoHit ''a''), (8, DoStand ''a''), (9, DoStand ''b'')]
        (snd (Start 6 (bets_placed ten_second)))
        = Some (snd (Start 6 (bets_placed ten_second)))"
proof -
  have ok: "fst (Start 6 (bets_placed ten_second))" by code_simp
  have bj: "CalculateHandScore (Hand (Players (snd (Start 6 (bets_placed ten_second))) ! 0)) = 21"
    by code_simp
  have h: "map Rank (Hand (Players (snd (Start 6 (bets_placed ten_second))) ! 0)) = [Ace, Ten]"
    by code_simp
  from C10_first_seat_blackjack [where leave = True, OF reachable_bets_placed ok bj] h
  show ?thesis by simp
qed

section \<open>Properties of the cards in play\<close>

lemma pairs_NewDeck_list: "map pair_of (Cards NewDeck) = List.product suits ranks"
  by (simp add: NewDeck_def suits_def ranks_def pair_of_def)

lemma pairs_NewDeck_52: "mset (map pair_of (Cards NewDeck)) = standard_52"
  by (simp only: pairs_NewDeck_list standard_52_def)

lemma pair_of_Face [simp]: "pair_of (c\<lparr>Face := b\<rparr>) = pair_of c"
  by (simp add: pair_of_def)

lemma size_standard_52: "size standard_52 = 52"
  by (simp add: standard_52_def suits_def ranks_def del: mset.simps add: size_mset)

lemma hands_update:
  "i < length ps \<Longrightarrow>
   mset (map pair_of (concat (map Hand (ps[i := p])))) + mset (map pair_of (Hand (ps ! i)))
     = mset (map pair_of (concat (map Hand ps))) + mset (map pair_of (Hand p))"
proof (induction ps arbitrary: i)
  case Nil
  then show ?case by simp
next
  case (Cons q ps)
  show ?case
  proof (cases i)
    case 0
    then show ?thesis by simp
  next
    case (Suc k)
    with Cons.prems have "k < length ps" by simp
    from Cons.IH [OF this] Suc show ?thesis by (simp add: ac_simps)
  qed
qed

lemma hands_update_same:
  "i < length ps \<Longrightarrow> Hand p = Hand (ps ! i) \<Longrightarrow>
   mset (map pair_of (concat (map Hand (ps[i := p])))) = mset (map pair_of (concat (map Hand ps)))"
  using hands_update [of i ps p] by simp

lemma hands_update_append:
  "i < length ps \<Longrightarrow> Hand p = Hand (ps ! i) @ [c] \<Longrightarrow>
   mset (map pair_of (concat (map Hand (ps[i := p]))))
     = mset (map pair_of (concat (map Hand ps))) + {#pair_of c#}"
  using hands_update [of i ps p] by simp

lemma Hand_settle [simp]: "Hand (settle ds dn p) = Hand p"
  by (simp add: settle_def Let_def split: PlayerStatus.splits)

lemma cards_DetermineWinners: "cards_in_play (DetermineWinners g) = cards_in_play g"
  by (simp add: cards_in_play_def DetermineWinners_def comp_def)

lemma cards_DealerTurn: "cards_in_play (DealerTurn now g) = cards_in_play g"
proof -
  let ?flipped = "map (\<lambda>c. c\<lparr>Face := True\<rparr>) (DealerHand (Dealer g))"
  let ?dl = "\<lparr>DealerHand = ?flipped, DealerScore = CalculateHandScore ?flipped\<rparr>"
  have "DealerScore ?dl = CalculateHandScore (DealerHand ?dl)" by simp
  from dealer_loop_spec [OF this, of "Deck g"]
  obtain k where loop: "dealer_loop ?dl (Deck g) =
        (\<lparr>DealerHand = ?flipped @ map (\<lambda>c. c\<lparr>Face := True\<rparr>) (take k (Cards (Deck g))),
          DealerScore = CalculateHandScore
            (?flipped @ map (\<lambda>c. c\<lparr>Face := True\<rparr>) (take k (Cards (Deck g))))\<rparr>,
         (Deck g)\<lparr>Cards := drop k (Cards (Deck g))\<rparr>)"
    by auto
  let ?g = "g\<lparr>Dealer := fst (dealer_loop ?dl (Deck g)), Deck := snd (dealer_loop ?dl (Deck g))\<rparr>"
  have turn: "DealerTurn now g = (DetermineWinners ?g)\<lparr>GameStatus := Completed, UpdatedAt := now\<rparr>"
    by (simp add: DealerTurn_def Let_def split: prod.splits)
  have split: "image_mset pair_of (mset (drop k (Cards (Deck g))))
      + image_mset pair_of (mset (take k (Cards (Deck g))))
      = image_mset pair_of (mset (Cards (Deck g)))"
    by (metis append_take_drop_id image_mset_union mset_append union_commute)
  have "cards_in_play (DealerTurn now g) = cards_in_play (DetermineWinners ?g)"
    unfolding turn by (simp add: cards_in_play_def)
  also have "\<dots> = cards_in_play ?g" by (rule cards_DetermineWinners)
  also have "\<dots> = cards_in_play g"
    by (simp add: cards_in_play_def loop comp_def split)
  finally show ?thesis .
qed


lemma cards_NextPlayer: "NextPlayer now g = Some g' \<Longrightarrow> cards_in_play g' = cards_in_play g"
proof -
  assume np: "NextPlayer now g = Some g'"
  let ?n = "nat (go_rem (CurrentPlayerIndex g + 1) (int (length (Players g))))"
  show ?thesis
  proof (cases "scan_loop (Players g) ?n ?n")
    case (Found j)
    then have j: "j < length (Players g)" by (rule scan_loop_Found)
    from np Found have g': "g' = g\<lparr>CurrentPlayerIndex := int j,
        Players := (Players g)[j := (Players g ! j)\<lparr>IsActive := True\<rparr>]\<rparr>"
      by (simp add: NextPlayer_def Let_def split: if_splits)
    show ?thesis using hands_update_same [OF j, of "(Players g ! j)\<lparr>IsActive := True\<rparr>"]
      by (simp add: g' cards_in_play_def)
  next
    case NoneActive
    with np have "g' = DealerTurn now g"
      by (simp add: NextPlayer_def Let_def split: if_splits)
    then show ?thesis by (simp add: cards_DealerTurn)
  next
    case OutOfRange
    with np show ?thesis by (simp add: NextPlayer_def Let_def split: if_splits)
  qed
qed

lemma cards_Hit:
  assumes "Hit now g pid = Some (c, ok, g')"
  shows "cards_in_play g' = cards_in_play g"
  using assms
proof (cases rule: Hit_cases)
  case fail
  then show ?thesis by simp
next
  case (draw i drawn rest)
  from find_seat_bound [OF draw(2)] have i: "i < length (Players g)" by simp
  let ?p = "(Players g ! i)\<lparr>Hand := Hand (Players g ! i) @ [c],
                       Score := CalculateHandScore (Hand (Players g ! i) @ [c])\<rparr>"
  from hands_update_append [OF i, of ?p c] show ?thesis
    by (simp add: draw(7) draw(3) draw(5) cards_in_play_def)
next
  case (bust i drawn rest g2)
  from find_seat_bound [OF bust(2)] have i: "i < length (Players g)" by simp
  let ?p = "(Players g ! i)\<lparr>Hand := Hand (Players g ! i) @ [c],
                   Score := CalculateHandScore (Hand (Players g ! i) @ [c]),
                   Status := PlayerBusted, IsActive := False\<rparr>"
  have "cards_in_play g' = cards_in_play g2" by (simp add: bust(8) cards_in_play_def)
  also have "\<dots> = cards_in_play (g\<lparr>Deck := (Deck g)\<lparr>Cards := rest\<rparr>,
                Players := (Players g)[i := ?p]\<rparr>)"
    by (rule cards_NextPlayer [OF bust(7)])
  also have "\<dots> = cards_in_play g"
    using hands_update_append [OF i, of ?p c] by (simp add: bust(3) bust(5) cards_in_play_def)
  finally show ?thesis .
qed

lemma cards_Stand:
  assumes "Stand now g pid = Some (ok, g')"
  shows "cards_in_play g' = cards_in_play g"
  using assms
proof (cases rule: Stand_cases)
  case fail
  then show ?thesis by simp
next
  case (stand i g2)
  from find_seat_bound [OF stand(2)] have i: "i < length (Players g)" by simp
  let ?p = "(Players g ! i)\<lparr>Status := PlayerStood, IsActive := False\<rparr>"
  have "cards_in_play g' = cards_in_play g2" by (simp add: stand(5) cards_in_play_def)
  also have "\<dots> = cards_in_play (g\<lparr>Players := (Players g)[i := ?p]\<rparr>)"
    by (rule cards_NextPlayer [OF stand(4)])
  also have "\<dots> = cards_in_play g"
    using hands_update_same [OF i, of ?p] by (simp add: cards_in_play_def)
  finally show ?thesis .
qed

lemma deal_players_cards:
  "2 * length ps \<le> length (Cards d) \<Longrightarrow>
   mset (map pair_of (concat (map Hand (fst (deal_players ps d)))))
     + mset (map pair_of (Cards (snd (deal_players ps d))))
   = mset (map pair_of (concat (map Hand ps))) + mset (map pair_of (Cards d))
   \<and> length (Cards (snd (deal_players ps d))) + 2 * length ps = length (Cards d)"
proof (induction ps arbitrary: d)
  case Nil
  show ?case by simp
next
  case (Cons p ps)
  from Cons.prems obtain c1 c2 rest where d: "Cards d = c1 # c2 # rest"
    by (cases "Cards d"; cases "tl (Cards d)") auto
  let ?d2 = "d\<lparr>Cards := rest\<rparr>"
  have d1: "DrawCard d = (c1, True, d\<lparr>Cards := c2 # rest\<rparr>)"
    by (simp add: DrawCard_def d)
  have d2: "DrawCard (d\<lparr>Cards := c2 # rest\<rparr>) = (c2, True, ?d2)"
    by (simp add: DrawCard_def)
  have "2 * length ps \<le> length (Cards ?d2)" using Cons.prems d by simp
  from Cons.IH [OF this] show ?case
    by (simp add: deal_players_Cons Let_def d1 d2 d ac_simps)
qed

lemma DealInitialCards_alt:
  "DealInitialCards g =
     (let d = snd (deal_players (Players g) (Deck g));
          dealerCard1 = fst (DrawCard d); d1 = snd (snd (DrawCard d));
          dealerCard2 = fst (DrawCard d1); d2 = snd (snd (DrawCard d1))
      in g\<lparr>Players := fst (deal_players (Players g) (Deck g)), Deck := d2,
           Dealer := \<lparr>DealerHand = (DealerHand (Dealer g) @ [dealerCard1\<lparr>Face := True\<rparr>])
                                    @ [dealerCard2\<lparr>Face := False\<rparr>],
                      DealerScore = GetValue (dealerCard1\<lparr>Face := True\<rparr>)\<rparr>\<rparr>)"
  by (simp add: DealInitialCards_def Let_def split: prod.splits)

lemma cards_Start:
  assumes "2 * length (Players g) + 2 \<le> length (Cards (Deck g))"
  shows "cards_in_play (snd (Start now g)) = cards_in_play g"
proof (cases "fst (Start now g)")
  case False
  then show ?thesis by (simp add: Start_fails)
next
  case True
  let ?ps = "fst (deal_players (Players g) (Deck g))"
  let ?d = "snd (deal_players (Players g) (Deck g))"
  from assms have "2 * length (Players g) \<le> length (Cards (Deck g))" by simp
  from deal_players_cards [OF this]
  have deal: "mset (map pair_of (concat (map Hand ?ps))) + mset (map pair_of (Cards ?d))
        = mset (map pair_of (concat (map Hand (Players g)))) + mset (map pair_of (Cards (Deck g)))"
    and len: "length (Cards ?d) + 2 * length (Players g) = length (Cards (Deck g))"
    by simp_all
  from len assms obtain c1 c2 rest where d: "Cards ?d = c1 # c2 # rest"
    by (cases "Cards ?d"; cases "tl (Cards ?d)") auto
  have d1: "DrawCard ?d = (c1, True, ?d\<lparr>Cards := c2 # rest\<rparr>)"
    by (simp add: DrawCard_def d)
  have d2: "DrawCard (?d\<lparr>Cards := c2 # rest\<rparr>) = (c2, True, ?d\<lparr>Cards := rest\<rparr>)"
    by (simp add: DrawCard_def)
  have deal': "DealInitialCards g =
      g\<lparr>Players := ?ps, Deck := ?d\<lparr>Cards := rest\<rparr>,
        Dealer := \<lparr>DealerHand = (DealerHand (Dealer g) @ [c1\<lparr>Face := True\<rparr>])
                                    @ [c2\<lparr>Face := False\<rparr>],
                   DealerScore = GetValue (c1\<lparr>Face := True\<rparr>)\<rparr>\<rparr>"
    by (simp add: DealInitialCards_alt Let_def d1 d2 del: GetValue.simps)
  have pos: "0 < length ?ps"
    using Start_succeeds(2) [OF True] by (simp add: deal_players_length)
  have S: "snd (Start now g) =
      (DealInitialCards g)\<lparr>GameStatus := InProgress, UpdatedAt := now, CurrentPlayerIndex := 0,
         Players := ?ps[0 := (?ps ! 0)\<lparr>IsActive := True\<rparr>]\<rparr>"
    using True by (simp add: Start_def Let_def Players_DealInitialCards split: if_splits)
  have "cards_in_play (snd (Start now g))
      = mset (map pair_of rest) + mset (map pair_of (concat (map Hand ?ps)))
        + mset (map pair_of (DealerHand (Dealer g))) + {#pair_of c1#} + {#pair_of c2#}"
    using hands_update_same [OF pos, of "(?ps ! 0)\<lparr>IsActive := True\<rparr>"]
    by (simp add: S deal' cards_in_play_def)
  also have "\<dots> = mset (map pair_of (concat (map Hand ?ps))) + mset (map pair_of (Cards ?d))
        + mset (map pair_of (DealerHand (Dealer g)))"
    by (simp add: d)
  also have "\<dots> = cards_in_play g"
    by (simp only: deal) (simp add: cards_in_play_def)
  finally show ?thesis .
qed

lemma fresh_cards: "fresh g \<Longrightarrow> cards_in_play g = standard_52"
  by (simp add: fresh_def cards_in_play_def)

lemma fresh_deck_length: "fresh g \<Longrightarrow> length (Cards (Deck g)) = 52"
proof -
  assume "fresh g"
  then have "size (mset (map pair_of (Cards (Deck g)))) = size standard_52"
    by (simp add: fresh_def)
  then show ?thesis by (simp add: size_standard_52)
qed

lemma pairs_Shuffle_NewDeck: "mset (map pair_of (Cards (Shuffle rnd NewDeck))) = standard_52"
proof -
  have "mset (map pair_of (Cards (Shuffle rnd NewDeck)))
      = image_mset pair_of (mset (Cards (Shuffle rnd NewDeck)))" by simp
  also have "\<dots> = image_mset pair_of (mset (Cards NewDeck))" by (simp only: mset_Shuffle)
  also have "\<dots> = mset (map pair_of (Cards NewDeck))" by simp
  also have "\<dots> = standard_52" by (rule pairs_NewDeck_52)
  finally show ?thesis .
qed

lemma fresh_NewBlackjackGame: "fresh (NewBlackjackGame uuid now rnd tableID minBet maxBet)"
  using pairs_Shuffle_NewDeck [of rnd] by (simp add: fresh_def NewBlackjackGame_def)

lemma fresh_PrepareForNextRound: "fresh (PrepareForNextRound now rnd g)"
  using pairs_Shuffle_NewDeck [of rnd] by (simp add: fresh_def PrepareForNextRound_def)

lemma fresh_AddPlayer: "fresh g \<Longrightarrow> fresh (snd (AddPlayer now g pid name balance))"
  by (auto simp: fresh_def AddPlayer_def Let_def find_seat_Some_iff set_update_subset_insert
      split: option.splits dest!: subsetD [OF set_update_subset_insert])

lemma fresh_RemovePlayer: "fresh g \<Longrightarrow> fresh (snd (RemovePlayer now g pid))"
  by (auto simp: fresh_def RemovePlayer_def split: option.splits
      dest: in_set_takeD in_set_dropD)

lemma fresh_PlaceBet: "fresh g \<Longrightarrow> fresh (snd (PlaceBet now g pid amount))"
  by (auto simp: fresh_def PlaceBet_def Let_def find_seat_Some_iff
      split: option.splits dest!: subsetD [OF set_update_subset_insert])

lemma length_Players_Start: "length (Players (snd (Start now g))) = length (Players g)"
  by (cases "fst (Start now g)") (simp_all add: Start_succeeds(4) Start_fails deal_players_length)

lemma length_Players_NextPlayer:
  "NextPlayer now g = Some g' \<Longrightarrow> length (Players g') = length (Players g)"
  by (auto simp: NextPlayer_def Let_def DealerTurn_def DetermineWinners_def
      split: if_splits scan.splits prod.splits)

lemma length_Players_Hit:
  "Hit now g pid = Some (c, ok, g') \<Longrightarrow> length (Players g') = length (Players g)"
  by (erule Hit_cases) (auto dest!: length_Players_NextPlayer)

lemma length_Players_Stand:
  "Stand now g pid = Some (ok, g') \<Longrightarrow> length (Players g') = length (Players g)"
  by (erule Stand_cases) (auto dest!: length_Players_NextPlayer)

lemma GameStatus_Hit:
  "Hit now g pid = Some (c, ok, g') \<Longrightarrow>
   g' = g \<or> (GameStatus g = InProgress \<and> (GameStatus g' = InProgress \<or> GameStatus g' = Completed))"
  by (erule Hit_cases) (auto dest!: NextPlayer_status)

lemma GameStatus_Stand:
  "Stand now g pid = Some (ok, g') \<Longrightarrow>
   g' = g \<or> (GameStatus g = InProgress \<and> (GameStatus g' = InProgress \<or> GameStatus g' = Completed))"
  by (erule Stand_cases) (auto dest!: NextPlayer_status)

lemma length_Players_PlaceBet:
  "length (Players (snd (PlaceBet now g pid amount))) = length (Players g)"
  by (simp add: PlaceBet_def Let_def split: option.splits)

lemma cards_PlaceBet: "cards_in_play (snd (PlaceBet now g pid amount)) = cards_in_play g"
proof (cases "find_seat (\<lambda>p. ID p = pid) (Players g)")
  case None
  then show ?thesis by (simp add: PlaceBet_def)
next
  case (Some i)
  then have i: "i < length (Players g)" by (simp add: find_seat_Some_iff)
  show ?thesis
    using hands_update_same [OF i, of "(Players g ! i)\<lparr>Bet := amount,
                                   Balance := Balance (Players g ! i) - amount\<rparr>"] Some
    by (simp add: PlaceBet_def Let_def cards_in_play_def)
qed

lemma reachable_cards:
  "reachable False g \<Longrightarrow>
   (GameStatus g = Waiting \<or> GameStatus g = Betting \<longrightarrow> fresh g)
   \<and> (GameStatus g = InProgress \<and> length (Players g) \<le> 25 \<longrightarrow> cards_in_play g = standard_52)"
proof (induction rule: reachable.induct)
  case (new uuid now rnd tableID minBet maxBet)
  show ?case by (simp add: fresh_NewBlackjackGame) (simp add: NewBlackjackGame_def)
next
  case (add g now pid name balance)
  show ?case
  proof (cases "GameStatus g = Waiting")
    case True
    with add.IH show ?thesis by (simp add: GameStatus_AddPlayer fresh_AddPlayer)
  next
    case False
    with add.IH show ?thesis by (simp add: AddPlayer_not_Waiting)
  qed
next
  case (remove g now pid)
  then show ?case by (auto simp: GameStatus_RemovePlayer fresh_RemovePlayer)
next
  case (bet g now pid amount)
  with cards_PlaceBet [of now g pid amount] length_Players_PlaceBet [of now g pid amount]
  show ?case by (auto simp: GameStatus_PlaceBet fresh_PlaceBet)
next
  case (start g now)
  show ?case
  proof (cases "fst (Start now g)")
    case False
    with start.IH show ?thesis by (simp add: Start_fails)
  next
    case True
    from Start_succeeds(1) [OF True] start.IH have f: "fresh g" by simp
    have "cards_in_play (snd (Start now g)) = standard_52" if "length (Players g) \<le> 25"
    proof -
      from that fresh_deck_length [OF f]
      have "2 * length (Players g) + 2 \<le> length (Cards (Deck g))" by simp
      from cards_Start [OF this] fresh_cards [OF f] show ?thesis by simp
    qed
    then show ?thesis by (simp add: Start_succeeds(3) [OF True] length_Players_Start)
  qed
next
  case (hit g now pid c ok g')
  from GameStatus_Hit [OF hit.hyps(2)] hit.IH cards_Hit [OF hit.hyps(2)]
    length_Players_Hit [OF hit.hyps(2)]
  show ?case by auto
next
  case (stand g now pid ok g')
  from GameStatus_Stand [OF stand.hyps(2)] stand.IH cards_Stand [OF stand.hyps(2)]
    length_Players_Stand [OF stand.hyps(2)]
  show ?case by auto
next
  case (next_round g now rnd)
  show ?case by (simp add: fresh_PrepareForNextRound) (simp add: PrepareForNextRound_def)
next
  case (idle g)
  then show ?case by simp
qed

lemma distinct_standard: "distinct (List.product suits ranks)"
  by (simp add: suits_def ranks_def distinct_product)

lemma count_standard_52: "count standard_52 x \<le> 1"
  unfolding standard_52_def using distinct_standard
  by (cases x) (simp add: distinct_count_atmost_1)

text \<open>
  Claim C3, as amended. In every state that the engine's operations reach from a new game
  without removing a seat during a round, while the status is InProgress and at most 25
  players are seated, the (suit, rank) pairs of the deck, of all player hands and of the
  dealer's hand are the standard 52-card set, each pair exactly once. \<open>Start\<close> keeps the
  cards in play whenever the deck holds two cards for every seat and two for the dealer;
  \<open>Hit\<close>, \<open>Stand\<close> and the dealer phase with its draws and the settlement always keep them.
\<close>

theorem C3_cards_conserved:
  "(reachable False g \<and> GameStatus g = InProgress \<and> length (Players g) \<le> 25 \<longrightarrow>
      cards_in_play g = standard_52)
   \<and> size standard_52 = 52 \<and> (\<forall>x. count standard_52 x \<le> 1)
   \<and> (2 * length (Players g) + 2 \<le> length (Cards (Deck g)) \<longrightarrow>
        cards_in_play (snd (Start now g)) = cards_in_play g)
   \<and> (Hit now g pid = Some (c, ok, g') \<longrightarrow> cards_in_play g' = cards_in_play g)
   \<and> (Stand now g pid = Some (ok, g') \<longrightarrow> cards_in_play g' = cards_in_play g)
   \<and> cards_in_play (DealerTurn now g) = cards_in_play g"
  using reachable_cards [of g] size_standard_52 count_standard_52 cards_Start [of g now]
    cards_Hit [of now g pid c ok g'] cards_Stand [of now g pid ok g'] cards_DealerTurn [of now g]
  by blast

text \<open>
  The started round of Ann and Bob holds the 52 cards, and so does the table before
  the deal.
\<close>

theorem C3_cards_conserved_witness:
  "cards_in_play round_plain = standard_52
   \<and> length (Players round_plain) = 2
   \<and> cards_in_play (snd (Start 6 (bets_placed no_shuffle))) = cards_in_play (bets_placed no_shuffle)"
proof -
  have r: "reachable False round_plain"
    unfolding round_plain_def by (intro reachable.start reachable_bets_placed)
  have s: "GameStatus round_plain = InProgress" by code_simp
  have n: "length (Players round_plain) = 2" by code_simp
  have d: "2 * length (Players (bets_placed no_shuffle)) + 2
           \<le> length (Cards (Deck (bets_placed no_shuffle)))" by code_simp
  from C3_cards_conserved [of round_plain 6 "''a''" zero_Card False round_plain] r s n
    C3_cards_conserved [of "bets_placed no_shuffle" 6 "''a''" zero_Card False round_plain] d
  show ?thesis by simp
qed

text \<open>
  Claim C3 as stated fails: \<open>RemovePlayer\<close> is allowed during a round and removes the seat
  with its hand. When Ann leaves during her turn, her two cards are in no hand and not in
  the deck: 50 cards are left in play.
\<close>

theorem C3_counterexample:
  "reachable True round_left \<and> GameStatus round_left = InProgress
   \<and> size (cards_in_play round_left) = 50
   \<and> cards_in_play round_left \<noteq> standard_52"
proof -
  have r: "reachable True round_left"
    unfolding round_left_def round_plain_def
    by (intro reachable.remove reachable.start reachable_bets_placed) simp
  have "GameStatus round_left = InProgress" "size (cards_in_play round_left) = 50"
    "cards_in_play round_left \<noteq> standard_52"
    by code_simp+
  with r show ?thesis by simp
qed

text \<open>
  With 26 seats the 52 cards go to the players, and \<open>DealInitialCards\<close>, which does not
  test the result of \<open>DrawCard\<close>, gives the dealer two blank cards: 54 cards are in play,
  two of them the pair of \<^verbatim>\<open>Card{}\<close>.
\<close>

lemma reachable_fold_AddPlayer:
  "reachable leave g \<Longrightarrow>
   reachable leave (fold (\<lambda>pid g. snd (AddPlayer now g pid pid balance)) pids g)"
  by (induction pids arbitrary: g) (simp_all add: reachable.add)

lemma reachable_fold_PlaceBet:
  "reachable leave g \<Longrightarrow>
   reachable leave (fold (\<lambda>pid g. snd (PlaceBet now g pid amount)) pids g)"
  by (induction pids arbitrary: g) (simp_all add: reachable.bet)

lemma deal_26_players:
  "reachable False round_26 \<and> GameStatus round_26 = InProgress
   \<and> length (Players round_26) = 26
   \<and> Cards (Deck round_26) = []
   \<and> DealerHand (Dealer round_26) = [zero_Card\<lparr>Face := True\<rparr>, zero_Card]
   \<and> size (cards_in_play round_26) = 54
   \<and> count (cards_in_play round_26) (NoSuit, NoRank) = 2"
proof -
  have r: "reachable False round_26"
    unfolding round_26_def bets_26_def lobby_26_def
    by (intro reachable.start reachable_fold_PlaceBet reachable.next_round
        reachable_fold_AddPlayer reachable.new)
  have "GameStatus round_26 = InProgress" "length (Players round_26) = 26"
    "Cards (Deck round_26) = []"
    "DealerHand (Dealer round_26) = [zero_Card\<lparr>Face := True\<rparr>, zero_Card]"
    "size (cards_in_play round_26) = 54"
    "count (cards_in_play round_26) (NoSuit, NoRank) = 2"
    by code_simp+
  with r show ?thesis by simp
qed

section \<open>Hit and Stand return\<close>

text \<open>
  \<open>CurrentPlayerIndex\<close> is never negative in a reachable state, so the remainder in
  \<open>NextPlayer\<close> is a valid index: \<open>Hit\<close> and \<open>Stand\<close> return in every reachable state.
\<close>

lemma scan_loop_in_range:
  "s < length ps \<Longrightarrow> n < length ps \<Longrightarrow> scan_loop ps s n \<noteq> OutOfRange"
proof (induction ps s n rule: scan_loop.induct)
  case (1 ps startIndex nextIndex)
  note unf = scan_loop.simps [of ps startIndex nextIndex]
  from "1.prems" have range: "\<not> (length ps \<le> nextIndex \<or> length ps \<le> startIndex)" by simp
  show ?case
  proof (cases "Status (ps ! nextIndex) = PlayerActive")
    case True
    with range unf show ?thesis by simp
  next
    case False
    show ?thesis
    proof (cases "(nextIndex + 1) mod length ps = startIndex")
      case True
      with range False unf show ?thesis by (simp add: Let_def)
    next
      case next_index: False
      have "0 < length ps" using "1.prems" by linarith
      then have "(nextIndex + 1) mod length ps < length ps" by (rule mod_less_divisor)
      from "1.IH" [OF range False refl next_index "1.prems"(1) this]
      show ?thesis using range False next_index unf by (simp add: Let_def)
    qed
  qed
qed

lemma NextPlayer_returns:
  assumes "Players g \<noteq> []" and "0 \<le> CurrentPlayerIndex g"
  shows "\<exists>g'. NextPlayer now g = Some g'"
proof -
  let ?n = "int (length (Players g))"
  let ?i = "go_rem (CurrentPlayerIndex g + 1) ?n"
  have n: "0 < ?n" using assms(1) by simp
  have i: "0 \<le> ?i" "?i < ?n" using assms(2) n by (simp_all add: go_rem_def)
  then have "nat ?i < length (Players g)" by linarith
  from scan_loop_in_range [OF this this] i n show ?thesis
    by (cases "scan_loop (Players g) (nat ?i) (nat ?i)") (simp_all add: NextPlayer_def Let_def)
qed

lemma NextPlayer_index:
  "NextPlayer now g = Some g' \<Longrightarrow> 0 \<le> CurrentPlayerIndex g \<Longrightarrow> 0 \<le> CurrentPlayerIndex g'"
  by (auto simp: NextPlayer_def Let_def DealerTurn_def DetermineWinners_def
      split: if_splits scan.splits prod.splits)

lemma Hit_returns: "0 \<le> CurrentPlayerIndex g \<Longrightarrow> \<exists>r. Hit now g pid = Some r"
proof -
  assume idx: "0 \<le> CurrentPlayerIndex g"
  show ?thesis
  proof (cases "find_seat (\<lambda>p. ID p = pid \<and> IsActive p \<and> Status p = PlayerActive) (Players g)")
    case None
    then show ?thesis by (auto simp: Hit_def)
  next
    case (Some i)
    then have i: "i < length (Players g)" by (simp add: find_seat_Some_iff)
    show ?thesis
    proof (cases "Cards (Deck g)")
      case Nil
      then show ?thesis by (auto simp: Hit_empty_deck)
    next
      case (Cons drawn rest)
      let ?c = "drawn\<lparr>Face := True\<rparr>"
      let ?p = "(Players g ! i)\<lparr>Hand := Hand (Players g ! i) @ [?c],
                   Score := CalculateHandScore (Hand (Players g ! i) @ [?c]),
                   Status := PlayerBusted, IsActive := False\<rparr>"
      let ?g = "g\<lparr>Deck := (Deck g)\<lparr>Cards := rest\<rparr>, Players := (Players g)[i := ?p]\<rparr>"
      have "Players ?g \<noteq> []" "0 \<le> CurrentPlayerIndex ?g" using i idx by auto
      from NextPlayer_returns [OF this] obtain g2 where "NextPlayer now ?g = Some g2" by blast
      with Some Cons show ?thesis by (auto simp: Hit_def DrawCard_Cons Let_def)
    qed
  qed
qed

lemma Stand_returns: "0 \<le> CurrentPlayerIndex g \<Longrightarrow> \<exists>r. Stand now g pid = Some r"
proof -
  assume idx: "0 \<le> CurrentPlayerIndex g"
  show ?thesis
  proof (cases "find_seat (\<lambda>p. ID p = pid \<and> IsActive p \<and> Status p = PlayerActive) (Players g)")
    case None
    then show ?thesis by (auto simp: Stand_def)
  next
    case (Some i)
    then have i: "i < length (Players g)" by (simp add: find_seat_Some_iff)
    let ?g = "g\<lparr>Players := (Players g)[i := (Players g ! i)\<lparr>Status := PlayerStood,
                                                             IsActive := False\<rparr>]\<rparr>"
    have "Players ?g \<noteq> []" "0 \<le> CurrentPlayerIndex ?g" using i idx by auto
    from NextPlayer_returns [OF this] obtain g2 where "NextPlayer now ?g = Some g2" by blast
    with Some show ?thesis by (auto simp: Stand_def)
  qed
qed

lemma reachable_index: "reachable leave g \<Longrightarrow> 0 \<le> CurrentPlayerIndex g"
proof (induction rule: reachable.induct)
  case (new uuid now rnd tableID minBet maxBet)
  show ?case by (simp add: NewBlackjackGame_def)
next
  case (add g now pid name balance)
  then show ?case by (simp add: AddPlayer_def Let_def split: option.splits)
next
  case (remove g now pid)
  then show ?case by (simp add: RemovePlayer_def split: option.splits)
next
  case (bet g now pid amount)
  then show ?case by (simp add: PlaceBet_def Let_def split: option.splits)
next
  case (start g now)
  then show ?case by (cases "fst (Start now g)") (simp_all add: Start_fails, simp add: Start_def Let_def split: if_splits)
next
  case (hit g now pid c ok g')
  from hit.hyps(2) hit.IH show ?case
    by (cases rule: Hit_cases) (auto dest!: NextPlayer_index)
next
  case (stand g now pid ok g')
  from stand.hyps(2) stand.IH show ?case
    by (cases rule: Stand_cases) (auto dest!: NextPlayer_index)
next
  case (next_round g now rnd)
  then show ?case by (simp add: PrepareForNextRound_def)
next
  case (idle g)
  then show ?case by simp
qed

lemma reachable_Hit_Stand_return:
  "reachable leave g \<Longrightarrow> (\<exists>r. Hit now g pid = Some r) \<and> (\<exists>r. Stand now g pid = Some r)"
  using reachable_index [of leave g] Hit_returns [of g now pid] Stand_returns [of g now pid]
  by blast

end
